theory Spec2Isabelle
  imports Complex_Main "HOL-Library.AList"
begin

unbundle bit_operations_syntax

section \<open>Values, errors and the Python library functions the agent calls\<close>

text \<open>
  The telemetry agent \<^verbatim>\<open>syslog.py\<close> is one class, \<^verbatim>\<open>LogSensors\<close>, with the
  coroutines \<^verbatim>\<open>select_readings\<close>, \<^verbatim>\<open>format_message\<close>, \<^verbatim>\<open>load_disk\<close>,
  \<^verbatim>\<open>load_sensors\<close>, \<^verbatim>\<open>send_data\<close> and \<^verbatim>\<open>main\<close>. Each is embedded below
  under its own name. An exception is a value of type \<open>error\<close>; the batch
  \<^verbatim>\<open>self.data\<close>, standard output and the TCP traffic are fields of an explicit state.

  Conventions of the model:
  \<^item> a character is a code point below 256, a string a list of them;
  \<^item> a Python \<^verbatim>\<open>int\<close> is an \<open>int\<close>, a Python \<^verbatim>\<open>float\<close> is an exact rational
    (rounding, infinities and NaN are not modelled);
  \<^item> a \<^verbatim>\<open>dict\<close> is an association list in insertion order (keys are distinct in
    Python; the functions below keep them distinct);
  \<^item> booleans and \<^verbatim>\<open>null\<close> do not occur in the JSON values of the model.
\<close>

datatype error =
    TypeError
  | AttributeError
  | IndexError
  | KeyError
  | ValueError
  | ZeroDivisionError
  | JSONDecodeError
  | ConnectionError

datatype json =
    JInt int
  | JReal rat
  | JStr string
  | JArr "json list"
  | JObj "(string \<times> json) list"

type_synonym message = "(string \<times> json) list"

subsection \<open>Dictionary access\<close>

definition contains :: "('k \<times> 'v) list \<Rightarrow> 'k \<Rightarrow> bool" where
  \<comment> \<open>\<^verbatim>\<open>key in d\<close>\<close>
  "contains d key = (map_of d key \<noteq> None)"

definition getitem :: "('k \<times> 'v) list \<Rightarrow> 'k \<Rightarrow> error + 'v" where
  \<comment> \<open>\<^verbatim>\<open>d[key]\<close>\<close>
  "getitem d key = (case map_of d key of None \<Rightarrow> Inl KeyError | Some v \<Rightarrow> Inr v)"

definition dict_update :: "('k \<times> 'v) list \<Rightarrow> ('k \<times> 'v) list \<Rightarrow> ('k \<times> 'v) list" where
  \<comment> \<open>\<^verbatim>\<open>d.update(other)\<close>: a key already present keeps its place, a new one goes last\<close>
  "dict_update d other = foldl (\<lambda>acc kv. AList.update (fst kv) (snd kv) acc) d other"

definition delitem :: "('k \<times> 'v) list \<Rightarrow> 'k \<Rightarrow> error + ('k \<times> 'v) list" where
  \<comment> \<open>\<^verbatim>\<open>del d[key]\<close>\<close>
  "delitem d key = (if contains d key then Inr (AList.delete key d) else Inl KeyError)"

subsection \<open>Decimal numerals and string joining\<close>

definition digit_char :: "nat \<Rightarrow> char" where
  "digit_char d = ''0123456789'' ! d"

fun show_nat :: "nat \<Rightarrow> string" where
  "show_nat n = (if n < 10 then [digit_char n] else show_nat (n div 10) @ [digit_char (n mod 10)])"

declare show_nat.simps [simp del]

definition show_int :: "int \<Rightarrow> string" where
  \<comment> \<open>\<^verbatim>\<open>str(i)\<close>, also what an f-string renders\<close>
  "show_int i = (if i < 0 then CHR ''-'' # show_nat (nat (- i)) else show_nat (nat i))"

fun join :: "string \<Rightarrow> string list \<Rightarrow> string" where
  \<comment> \<open>\<^verbatim>\<open>sep.join(parts)\<close>\<close>
  "join sep [] = []"
| "join sep [x] = x"
| "join sep (x # y # ys) = x @ sep @ join sep (y # ys)"

definition is_digit :: "char \<Rightarrow> bool" where
  "is_digit c = ((48::nat) \<le> of_char c \<and> of_char c \<le> (57::nat))"

definition digits_value :: "string \<Rightarrow> nat" where
  "digits_value ds = foldl (\<lambda>acc c. 10 * acc + (of_char c - (48::nat))) 0 ds"

definition py_int :: "string \<Rightarrow> error + int" where
  \<comment> \<open>\<^verbatim>\<open>int(token)\<close> on an optional sign followed by ASCII digits; every other token is
      reported as \<^verbatim>\<open>ValueError\<close> (Python also accepts digits grouped by underscores
      and non-ASCII digits, which the tool never prints)\<close>
  "py_int token =
     (case token of
        [] \<Rightarrow> Inl ValueError
      | c # cs \<Rightarrow>
          if c = CHR ''-'' \<or> c = CHR ''+'' then
            (if cs \<noteq> [] \<and> list_all is_digit cs
             then Inr ((if c = CHR ''-'' then - 1 else 1) * int (digits_value cs))
             else Inl ValueError)
          else if list_all is_digit (c # cs) then Inr (int (digits_value (c # cs)))
          else Inl ValueError)"

subsection \<open>Regular expressions: \<^verbatim>\<open>re.match\<close> and \<^verbatim>\<open>re.fullmatch\<close>\<close>

text \<open>
  \<^verbatim>\<open>select_readings\<close> calls \<^verbatim>\<open>re.match(pattern, key)\<close>. The function takes the
  matcher as a parameter, so that what is proved about it holds for every pattern
  language. For concrete runs \<open>re_match\<close> and \<open>re_fullmatch\<close> below follow Python's
  \<^verbatim>\<open>re\<close> on the patterns built from ordinary characters, \<^verbatim>\<open>.\<close> (any character but a
  newline) and a final \<^verbatim>\<open>$\<close> (the end of the key, or just before a newline that ends
  it). \<^verbatim>\<open>re.match\<close> anchors the pattern at the start of the key only;
  \<^verbatim>\<open>re.fullmatch\<close> requires it to span the whole key.
\<close>

definition newline :: char where
  "newline = CHR 0x0A"

definition re_atom :: "char \<Rightarrow> char \<Rightarrow> bool" where
  "re_atom p c = (if p = CHR ''.'' then c \<noteq> newline else p = c)"

fun re_match :: "string \<Rightarrow> string \<Rightarrow> bool" where
  "re_match [] key = True"
| "re_match (p # ps) key =
     (if p = CHR ''$'' \<and> ps = [] then key = [] \<or> key = [newline]
      else (case key of [] \<Rightarrow> False | c # cs \<Rightarrow> re_atom p c \<and> re_match ps cs))"

fun re_fullmatch :: "string \<Rightarrow> string \<Rightarrow> bool" where
  "re_fullmatch [] key = (key = [])"
| "re_fullmatch (p # ps) key =
     (if p = CHR ''$'' \<and> ps = [] then key = []
      else (case key of [] \<Rightarrow> False | c # cs \<Rightarrow> re_atom p c \<and> re_fullmatch ps cs))"

section \<open>SensorPathMatcher: \<^verbatim>\<open>select_readings\<close>\<close>

text \<open>
  \<^verbatim>\<open>
  async def select_readings(self, sensors_data, sensor_device):
      if len(sensor_device) == 1:
          return [sensors_data[key] for key in sensors_data.keys()
                  if re.match(sensor_device[0], key)]
      return reduce(lambda a, b: a + b, [
          await self.select_readings(sensors_data[key], sensor_device[1:])
          for key in sensors_data.keys()
          if re.match(sensor_device[0], key)])
  \<close>
  \<^verbatim>\<open>sensors_data.keys()\<close> raises \<^verbatim>\<open>AttributeError\<close> on a value that is not a mapping;
  \<^verbatim>\<open>sensor_device[0]\<close> raises \<^verbatim>\<open>IndexError\<close> on an empty selector list, at the first
  key; \<^verbatim>\<open>reduce\<close> without an initial value raises \<^verbatim>\<open>TypeError\<close> on an empty list.
  \<open>select_values\<close> is the list comprehension of the first \<^verbatim>\<open>return\<close>, \<open>select_each\<close>
  that of the second: both walk the keys in order, look each matching key up in the
  mapping, and stop at the first exception.
\<close>

fun reduce_concat :: "'a list list \<Rightarrow> error + 'a list" where
  \<comment> \<open>\<^verbatim>\<open>reduce(lambda a, b: a + b, results)\<close> on a list of lists\<close>
  "reduce_concat [] = Inl TypeError"
| "reduce_concat (r # rs) = Inr (foldl (@) r rs)"

lemma getitem_size: "getitem d key = Inr child \<Longrightarrow> size child < size (JObj d)"
proof (induction d)
  case Nil
  then show ?case by (simp add: getitem_def)
next
  case (Cons kv d)
  then show ?case
    by (cases kv) (auto simp: getitem_def split: if_splits option.splits)
qed

fun select_values :: "(string \<Rightarrow> string \<Rightarrow> bool) \<Rightarrow> (string \<times> json) list \<Rightarrow> string list \<Rightarrow> string \<Rightarrow> error + json list" where
  \<comment> \<open>\<^verbatim>\<open>[sensors_data[key] for key in keys if re.match(p, key)]\<close>\<close>
  "select_values matches sensors_data [] p = Inr []"
| "select_values matches sensors_data (key # keys) p =
     (if matches p key then
        (case getitem sensors_data key of
           Inl e \<Rightarrow> Inl e
         | Inr v \<Rightarrow>
             (case select_values matches sensors_data keys p of
                Inl e \<Rightarrow> Inl e
              | Inr vs \<Rightarrow> Inr (v # vs)))
      else select_values matches sensors_data keys p)"

function (sequential)
  select_readings :: "(string \<Rightarrow> string \<Rightarrow> bool) \<Rightarrow> json \<Rightarrow> string list \<Rightarrow> error + json list"
  and select_each :: "(string \<Rightarrow> string \<Rightarrow> bool) \<Rightarrow> (string \<times> json) list \<Rightarrow> string list \<Rightarrow> string list \<Rightarrow> error + json list list"
where
  "select_readings matches (JObj sensors_data) [p] =
     select_values matches sensors_data (map fst sensors_data) p"
| "select_readings matches (JObj sensors_data) sensor_device =
     (case select_each matches sensors_data (map fst sensors_data) sensor_device of
        Inl e \<Rightarrow> Inl e
      | Inr results \<Rightarrow> reduce_concat results)"
| "select_readings matches _ sensor_device = Inl AttributeError"
| "select_each matches sensors_data [] sensor_device = Inr []"
| "select_each matches sensors_data (key # keys) [] = Inl IndexError"
| "select_each matches sensors_data (key # keys) (p # ps) =
     (if matches p key then
        (case getitem sensors_data key of
           Inl e \<Rightarrow> Inl e
         | Inr child \<Rightarrow>
             (case select_readings matches child ps of
                Inl e \<Rightarrow> Inl e
              | Inr r \<Rightarrow>
                  (case select_each matches sensors_data keys (p # ps) of
                     Inl e \<Rightarrow> Inl e
                   | Inr rs \<Rightarrow> Inr (r # rs))))
      else select_each matches sensors_data keys (p # ps))"
  by pat_completeness auto
termination
  by (relation "measures
        [\<lambda>x. case x of Inl (m, j, sd) \<Rightarrow> 2 * size j + 1 | Inr (m, d, keys, sd) \<Rightarrow> 2 * size (JObj d),
         \<lambda>x. case x of Inl _ \<Rightarrow> 0 | Inr (m, d, keys, sd) \<Rightarrow> length keys]")
     (auto dest: getitem_size)

section \<open>MessageFormatter: \<^verbatim>\<open>format_message\<close>\<close>

subsection \<open>Arithmetic on JSON values\<close>

definition bind :: "error + 'a \<Rightarrow> ('a \<Rightarrow> error + 'b) \<Rightarrow> error + 'b" where
  \<comment> \<open>sequencing: an exception raised by the first computation skips the second\<close>
  "bind r f = (case r of Inl e \<Rightarrow> Inl e | Inr x \<Rightarrow> f x)"

fun lshift :: "json \<Rightarrow> nat \<Rightarrow> error + int" where
  \<comment> \<open>\<^verbatim>\<open>x << n\<close>\<close>
  "lshift (JInt a) n = Inr (push_bit n a)"
| "lshift _ n = Inl TypeError"

fun bit_or :: "int \<Rightarrow> json \<Rightarrow> error + int" where
  \<comment> \<open>\<^verbatim>\<open>a | x\<close>\<close>
  "bit_or a (JInt b) = Inr (a OR b)"
| "bit_or a _ = Inl TypeError"

fun json_add :: "json \<Rightarrow> json \<Rightarrow> error + json" where
  \<comment> \<open>\<^verbatim>\<open>a + b\<close>\<close>
  "json_add (JInt a) (JInt b) = Inr (JInt (a + b))"
| "json_add (JInt a) (JReal b) = Inr (JReal (of_int a + b))"
| "json_add (JReal a) (JInt b) = Inr (JReal (a + of_int b))"
| "json_add (JReal a) (JReal b) = Inr (JReal (a + b))"
| "json_add (JStr a) (JStr b) = Inr (JStr (a @ b))"
| "json_add (JArr a) (JArr b) = Inr (JArr (a @ b))"
| "json_add _ _ = Inl TypeError"

fun truediv :: "json \<Rightarrow> nat \<Rightarrow> error + json" where
  \<comment> \<open>\<^verbatim>\<open>a / n\<close> for a length \<open>n\<close>: true division, the result is a float\<close>
  "truediv (JInt a) n = (if n = 0 then Inl ZeroDivisionError else Inr (JReal (of_int a / of_nat n)))"
| "truediv (JReal a) n = (if n = 0 then Inl ZeroDivisionError else Inr (JReal (a / of_nat n)))"
| "truediv _ n = Inl TypeError"

fun iterate :: "json \<Rightarrow> error + json list" where
  \<comment> \<open>the elements \<^verbatim>\<open>reduce\<close> walks over: a list's items, a string's characters, a
      mapping's keys; a number is not iterable\<close>
  "iterate (JArr xs) = Inr xs"
| "iterate (JStr s) = Inr (map (\<lambda>c. JStr [c]) s)"
| "iterate (JObj kvs) = Inr (map (\<lambda>kv. JStr (fst kv)) kvs)"
| "iterate _ = Inl TypeError"

fun py_len :: "json \<Rightarrow> error + nat" where
  \<comment> \<open>\<^verbatim>\<open>len(x)\<close>\<close>
  "py_len (JArr xs) = Inr (length xs)"
| "py_len (JStr s) = Inr (length s)"
| "py_len (JObj kvs) = Inr (length kvs)"
| "py_len _ = Inl TypeError"

fun reduce_from :: "json \<Rightarrow> json list \<Rightarrow> error + json" where
  "reduce_from acc [] = Inr acc"
| "reduce_from acc (x # xs) = bind (json_add acc x) (\<lambda>acc'. reduce_from acc' xs)"

definition reduce_add :: "json list \<Rightarrow> error + json" where
  \<comment> \<open>\<^verbatim>\<open>reduce(lambda a, b: a + b, xs)\<close>: no initial value, so an empty \<open>xs\<close> raises\<close>
  "reduce_add xs = (case xs of [] \<Rightarrow> Inl TypeError | x # rest \<Rightarrow> reduce_from x rest)"

definition mean_of :: "json \<Rightarrow> error + json" where
  \<comment> \<open>\<^verbatim>\<open>reduce(lambda a, b: a + b, readings) / len(readings)\<close>\<close>
  "mean_of readings =
     bind (iterate readings) (\<lambda>xs.
     bind (reduce_add xs) (\<lambda>total.
     bind (py_len readings) (\<lambda>n.
     truediv total n)))"

subsection \<open>\<^verbatim>\<open>json.dumps\<close>\<close>

definition hex_digit :: "nat \<Rightarrow> char" where
  "hex_digit d = ''0123456789abcdef'' ! d"

definition escape_char :: "char \<Rightarrow> string" where
  \<comment> \<open>\<^verbatim>\<open>ensure_ascii\<close> is on: only the printable ASCII characters other than the quote
      and the backslash stand for themselves\<close>
  "escape_char c =
     (if c = CHR 0x22 then [CHR 0x5C, CHR 0x22]
      else if c = CHR 0x5C then [CHR 0x5C, CHR 0x5C]
      else if c = CHR 0x0A then [CHR 0x5C, CHR ''n'']
      else if c = CHR 0x0D then [CHR 0x5C, CHR ''r'']
      else if c = CHR 0x09 then [CHR 0x5C, CHR ''t'']
      else if c = CHR 0x08 then [CHR 0x5C, CHR ''b'']
      else if c = CHR 0x0C then [CHR 0x5C, CHR ''f'']
      else if (32::nat) \<le> of_char c \<and> of_char c \<le> (126::nat) then [c]
      else [CHR 0x5C, CHR ''u'', CHR ''0'', CHR ''0'',
            hex_digit (of_char c div 16), hex_digit (of_char c mod 16)])"

definition json_string :: "string \<Rightarrow> string" where
  "json_string s = CHR 0x22 # concat (map escape_char s) @ [CHR 0x22]"

fun json_dumps :: "(rat \<Rightarrow> string) \<Rightarrow> json \<Rightarrow> string" where
  \<comment> \<open>\<^verbatim>\<open>json.dumps(x)\<close> with the default separators; how a float prints is a parameter\<close>
  "json_dumps fr (JInt i) = show_int i"
| "json_dumps fr (JReal r) = fr r"
| "json_dumps fr (JStr s) = json_string s"
| "json_dumps fr (JArr xs) = ''['' @ join '', '' (map (json_dumps fr) xs) @ '']''"
| "json_dumps fr (JObj kvs) =
     ''{'' @ join '', '' (map (\<lambda>kv. json_string (fst kv) @ '': '' @ json_dumps fr (snd kv)) kvs) @ ''}''"

definition json_dumps_indent2 :: "string list \<Rightarrow> string" where
  \<comment> \<open>\<^verbatim>\<open>json.dumps(xs, indent=2)\<close> for a list of strings: one item per line, indented
      by two spaces\<close>
  "json_dumps_indent2 xs =
     (if xs = [] then ''[]''
      else ''['' @ [newline] @ ''  '' @ join ('','' @ [newline] @ ''  '') (map json_string xs)
           @ [newline] @ '']'')"

subsection \<open>The formatter\<close>

text \<open>
  \<^verbatim>\<open>
  async def format_message(self, message):
      if 'Facility' in message:
          value = message['Facility'] << 3
      else:
          value = 3 << 3  # DAEMON
      if 'Priority' in message:
          value |= message['Priority']
      else:
          value |= 6  # INFO
      timereported = datetime.now(timezone.utc)
      value = [timereported.strftime(f'<{value}>%b %d %X'),
               os.uname().nodename,
               f'{os.path.basename(__file__)}[{os.getpid()}]:']
      value.append('@cee:')
      message.update({
          'hostname': value[1],
          'timereported': timereported.astimezone().isoformat(),
          message['name']:
          reduce(lambda a, b: a + b, message['readings']) / len(message['readings']),
          })
      del message['readings']
      value.append(json.dumps(message))
      return ' '.join(value)
  \<close>
  What the function reads from its surroundings is the record \<open>env\<close>: the host name, the
  program name and process id of the tag, the clock rendered by \<^verbatim>\<open>'%b %d %X'\<close> in UTC
  (\<open>utc_stamp\<close>) and by \<^verbatim>\<open>isoformat\<close> in local time (\<open>local_iso\<close>), and how
  \<^verbatim>\<open>json.dumps\<close> prints a float.
\<close>

record env =
  nodename :: string
  progname :: string
  pid :: nat
  utc_stamp :: string
  local_iso :: string
  float_repr :: "rat \<Rightarrow> string"

definition pri_value :: "message \<Rightarrow> error + int" where
  \<comment> \<open>the first two statements: \<^verbatim>\<open>value\<close> before it becomes the token list\<close>
  "pri_value message =
     bind (if contains message ''Facility''
           then bind (getitem message ''Facility'') (\<lambda>f. lshift f 3)
           else Inr (push_bit 3 3))
       (\<lambda>v. if contains message ''Priority''
            then bind (getitem message ''Priority'') (bit_or v)
            else Inr (v OR 6))"

definition header :: "env \<Rightarrow> int \<Rightarrow> string list" where
  \<comment> \<open>the token list \<^verbatim>\<open>value\<close> before the payload is appended\<close>
  "header env v =
     [''<'' @ show_int v @ ''>'' @ utc_stamp env,
      nodename env,
      progname env @ ''['' @ show_nat (pid env) @ '']:'',
      ''@cee:'']"

fun as_key :: "json \<Rightarrow> error + string" where
  \<comment> \<open>a dictionary key: lists and mappings are unhashable; a numeric name is outside
      the model (both callers pass a string), and is reported like them\<close>
  "as_key (JStr s) = Inr s"
| "as_key _ = Inl TypeError"

definition payload :: "env \<Rightarrow> message \<Rightarrow> error + message" where
  \<comment> \<open>\<^verbatim>\<open>message\<close> after \<^verbatim>\<open>message.update({...})\<close> and \<^verbatim>\<open>del message['readings']\<close>\<close>
  "payload env message =
     bind (getitem message ''name'') (\<lambda>name.
     bind (as_key name) (\<lambda>name_key.
     bind (getitem message ''readings'') (\<lambda>readings.
     bind (mean_of readings) (\<lambda>mean.
     delitem
       (dict_update message
          (dict_update []
             [(''hostname'', JStr (nodename env)),
              (''timereported'', JStr (local_iso env)),
              (name_key, mean)]))
       ''readings''))))"

definition format_message :: "env \<Rightarrow> message \<Rightarrow> error + string" where
  "format_message env message =
     bind (pri_value message) (\<lambda>v.
     bind (payload env message) (\<lambda>message'.
     Inr (join '' '' (header env v @ [json_dumps (float_repr env) (JObj message')]))))"

section \<open>Configuration, state and the outside world\<close>

text \<open>
  \<open>config\<close> is the JSON file read by \<^verbatim>\<open>__init__\<close>; \<^verbatim>\<open>disk_kinds\<close> is the one key
  the code tests for. \<open>state\<close> is what a run changes: the batch \<^verbatim>\<open>self.data\<close>, what
  was printed (one entry per \<^verbatim>\<open>print\<close>), what went over TCP, and the sleeps of
  \<^verbatim>\<open>main\<close>. \<open>world\<close> is what one cycle reads from outside: \<^verbatim>\<open>re.match\<close>, the
  environment at the time the reading of a given name is formatted, the output of the
  disk tool for a command line (its lines, each decoded and split at whitespace), the
  parsed output of the sensor tool, the result of \<^verbatim>\<open>asyncio.open_connection\<close>, the
  order in which the event loop wakes the suspended tasks (by position among the
  arguments of \<^verbatim>\<open>asyncio.gather\<close>), and \<^verbatim>\<open>time.time()\<close> when the sleep is computed.
\<close>

record config =
  logger_addr :: string
  logger_port :: nat
  INTERVAL :: real
  disk_names :: "string list"
  disk_devices :: "(string \<times> string) list"
  disk_kinds :: "(string \<times> string) list option"
  sensor_names :: "string list"
  sensor_devices :: "(string \<times> string list) list"

datatype net_event = Connect string nat | Sent string | Close

record state =
  data :: "string list"
  stdout :: "string list"
  wire :: "net_event list"
  slept :: "real list"

record world =
  matcher :: "string \<Rightarrow> string \<Rightarrow> bool"
  clock :: "string \<Rightarrow> env"
  smartctl :: "string \<Rightarrow> string list list"
  sensors :: "error + json"
  connect :: "error option"
  schedule :: "nat list"
  now :: real

text \<open>
  A coroutine runs until it awaits something that is not ready: a segment. A segment
  ends by returning, by raising, or suspended at one of the await points of the source
  (\<open>coro\<close>): the disk tool's output (\<^verbatim>\<open>create_subprocess_shell\<close>, \<^verbatim>\<open>communicate\<close>),
  the sensor tool's output, \<^verbatim>\<open>open_connection\<close>, \<^verbatim>\<open>writer.drain()\<close> and
  \<^verbatim>\<open>writer.wait_closed()\<close>. Awaiting \<^verbatim>\<open>select_readings\<close> or \<^verbatim>\<open>format_message\<close> does
  not suspend: neither awaits anything but itself.
\<close>

datatype coro =
    AwaitTool string string
  | AwaitSensors
  | AwaitConnect
  | AwaitDrain
  | AwaitClosed

datatype step = Return | Raise error | Suspend coro

datatype outcome = Done state | Raised error state | Pending state

section \<open>DiskCollector: \<^verbatim>\<open>load_disk\<close>\<close>

text \<open>
  \<^verbatim>\<open>
  async def load_disk(self, disk_name):
      if disk_name in self.config['disk_devices']:
          device = self.config['disk_devices'][disk_name]
      else:
          device = self.config['disk_devices']['__default__']
      if 'disk_kinds' in self.config and disk_name in self.config['disk_kinds']:
          kind = f'-d {self.config["disk_kinds"][disk_name]}'
      else:
          kind = ''
      sensors = await asyncio.create_subprocess_shell(
              f'sudo smartctl -Ai {kind} {device}', ...)
      stdout, stderr = await sensors.communicate()
      message = {'name': disk_name}
      for line in stdout.splitlines():
          line = line.decode().split()
          if line and line[0] in ['190', '194']:
              message['readings'] = [int(line[9])]
          if line and line[0] == 'Device' and line[1] == 'Model:':
              message['model'] = ' '.join(line[2:])
          if line and line[0] == 'Serial' and line[1] == 'Number:':
              message['serial'] = ' '.join(line[2:])
      if 'readings' in message:
          self.data.append(await self.format_message(message))
  \<close>
\<close>

definition index :: "'a list \<Rightarrow> nat \<Rightarrow> error + 'a" where
  \<comment> \<open>\<^verbatim>\<open>xs[i]\<close> for \<open>i \<ge> 0\<close>\<close>
  "index xs i = (if i < length xs then Inr (xs ! i) else Inl IndexError)"

definition disk_command :: "config \<Rightarrow> string \<Rightarrow> error + string" where
  "disk_command cfg disk_name =
     bind (if contains (disk_devices cfg) disk_name
           then getitem (disk_devices cfg) disk_name
           else getitem (disk_devices cfg) ''__default__'') (\<lambda>device.
     bind (case disk_kinds cfg of
             None \<Rightarrow> Inr []
           | Some kinds \<Rightarrow>
               if contains kinds disk_name
               then bind (getitem kinds disk_name) (\<lambda>k. Inr (''-d '' @ k))
               else Inr []) (\<lambda>kind.
     Inr (''sudo smartctl -Ai '' @ kind @ '' '' @ device)))"

definition label_line :: "string \<Rightarrow> string \<Rightarrow> string \<Rightarrow> message \<Rightarrow> string list \<Rightarrow> error + message" where
  \<comment> \<open>\<^verbatim>\<open>if line and line[0] == first and line[1] == second: message[field] = ' '.join(line[2:])\<close>\<close>
  "label_line first second field message line =
     (if line \<noteq> [] \<and> hd line = first then
        bind (index line 1) (\<lambda>t.
          Inr (if t = second
               then AList.update field (JStr (join '' '' (drop 2 line))) message
               else message))
      else Inr message)"

definition scan_line :: "message \<Rightarrow> string list \<Rightarrow> error + message" where
  \<comment> \<open>the body of the loop, for one line already split into tokens\<close>
  "scan_line message line =
     bind (if line \<noteq> [] \<and> hd line \<in> set [''190'', ''194''] then
             bind (index line 9) (\<lambda>token.
             bind (py_int token) (\<lambda>v.
             Inr (AList.update ''readings'' (JArr [JInt v]) message)))
           else Inr message) (\<lambda>m1.
     bind (label_line ''Device'' ''Model:'' ''model'' m1 line) (\<lambda>m2.
     label_line ''Serial'' ''Number:'' ''serial'' m2 line))"

fun scan_lines :: "message \<Rightarrow> string list list \<Rightarrow> error + message" where
  "scan_lines message [] = Inr message"
| "scan_lines message (line # rest) = bind (scan_line message line) (\<lambda>m. scan_lines m rest)"

definition load_disk_start :: "config \<Rightarrow> string \<Rightarrow> state \<Rightarrow> step \<times> state" where
  \<comment> \<open>up to the first await\<close>
  "load_disk_start cfg disk_name s =
     (case disk_command cfg disk_name of
        Inl e \<Rightarrow> (Raise e, s)
      | Inr command \<Rightarrow> (Suspend (AwaitTool disk_name command), s))"

definition load_disk_resume :: "world \<Rightarrow> string \<Rightarrow> string \<Rightarrow> state \<Rightarrow> step \<times> state" where
  \<comment> \<open>from the tool's output to the end\<close>
  "load_disk_resume w disk_name command s =
     (case scan_lines [(''name'', JStr disk_name)] (smartctl w command) of
        Inl e \<Rightarrow> (Raise e, s)
      | Inr message \<Rightarrow>
          if contains message ''readings'' then
            (case format_message (clock w disk_name) message of
               Inl e \<Rightarrow> (Raise e, s)
             | Inr line \<Rightarrow> (Return, s\<lparr>data := data s @ [line]\<rparr>))
          else (Return, s))"

section \<open>SensorCollector: \<^verbatim>\<open>load_sensors\<close>\<close>

text \<open>
  \<^verbatim>\<open>
  async def load_sensors(self):
      sensors = await asyncio.create_subprocess_shell("sensors -j", ...)
      stdout, stderr = await sensors.communicate()
      sensor_data = json.loads(stdout.decode())
      for sensor_name in self.config["sensor_names"]:
          message = {
                  'name': sensor_name,
                  'readings': await self.select_readings(
                      sensor_data, self.config['sensor_devices'][sensor_name])
                  }
          self.data.append(await self.format_message(message))
  \<close>
\<close>

fun each_sensor :: "config \<Rightarrow> world \<Rightarrow> json \<Rightarrow> string list \<Rightarrow> state \<Rightarrow> error option \<times> state" where
  \<comment> \<open>the \<^verbatim>\<open>for\<close> loop: the exception that ended it, if any, and the state then\<close>
  "each_sensor cfg w sensor_data [] s = (None, s)"
| "each_sensor cfg w sensor_data (sensor_name # rest) s =
     (case bind (getitem (sensor_devices cfg) sensor_name) (\<lambda>sensor_device.
           bind (select_readings (matcher w) sensor_data sensor_device) (\<lambda>readings.
           format_message (clock w sensor_name)
             [(''name'', JStr sensor_name), (''readings'', JArr readings)])) of
        Inl e \<Rightarrow> (Some e, s)
      | Inr line \<Rightarrow> each_sensor cfg w sensor_data rest (s\<lparr>data := data s @ [line]\<rparr>))"

definition load_sensors_start :: "state \<Rightarrow> step \<times> state" where
  "load_sensors_start s = (Suspend AwaitSensors, s)"

definition load_sensors_resume :: "config \<Rightarrow> world \<Rightarrow> state \<Rightarrow> step \<times> state" where
  "load_sensors_resume cfg w s =
     (case sensors w of
        Inl e \<Rightarrow> (Raise e, s)
      | Inr sensor_data \<Rightarrow>
          (case each_sensor cfg w sensor_data (sensor_names cfg) s of
             (Some e, s') \<Rightarrow> (Raise e, s')
           | (None, s') \<Rightarrow> (Return, s')))"

section \<open>Sink: \<^verbatim>\<open>send_data\<close>\<close>

text \<open>
  \<^verbatim>\<open>
  async def send_data(self):
      if not self.data:
          return
      if self.args.dry_run:
          print(json.dumps(self.data, indent=2))
          self.data.clear()
          return
      reader, writer = await asyncio.open_connection(
              self.config['logger_addr'], self.config['logger_port'])
      while self.data:
          writer.write(f'{self.data.pop(0)}\n'.encode())
          await writer.drain()
      writer.close()
      await writer.wait_closed()
  \<close>
  Every \<^verbatim>\<open>drain\<close> is taken as a point where the task may be suspended.
\<close>

definition send_data_start :: "bool \<Rightarrow> state \<Rightarrow> step \<times> state" where
  "send_data_start dry_run s =
     (if data s = [] then (Return, s)
      else if dry_run then
        (Return, s\<lparr>data := [], stdout := stdout s @ [json_dumps_indent2 (data s)]\<rparr>)
      else (Suspend AwaitConnect, s))"

definition send_loop :: "state \<Rightarrow> step \<times> state" where
  \<comment> \<open>the \<^verbatim>\<open>while\<close> test and what follows it, up to the next await\<close>
  "send_loop s =
     (case data s of
        [] \<Rightarrow> (Suspend AwaitClosed, s\<lparr>wire := wire s @ [Close]\<rparr>)
      | m # rest \<Rightarrow> (Suspend AwaitDrain, s\<lparr>data := rest, wire := wire s @ [Sent (m @ [newline])]\<rparr>))"

definition send_connected :: "config \<Rightarrow> world \<Rightarrow> state \<Rightarrow> step \<times> state" where
  "send_connected cfg w s =
     (case connect w of
        Some e \<Rightarrow> (Raise e, s)
      | None \<Rightarrow> send_loop (s\<lparr>wire := wire s @ [Connect (logger_addr cfg) (logger_port cfg)]\<rparr>))"

section \<open>Scheduler: \<^verbatim>\<open>main\<close>\<close>

text \<open>
  \<^verbatim>\<open>
  async def main(self):
      while True:
          await asyncio.gather(
                  *([self.load_disk(name) for name in self.config["disk_names"]] +
                    [self.load_sensors(), self.send_data()]))
          await asyncio.sleep(self.config['INTERVAL'] -
                              time.time() % self.config['INTERVAL'])
  \<close>
  \<^verbatim>\<open>asyncio.gather\<close> makes one task of each coroutine, in argument order. The event
  loop gives each task its first segment in that order (\<open>start_all\<close>); after that a
  task runs again when what it awaits is ready, in the order \<open>schedule\<close> of the world
  (\<open>run_events\<close>). \<^verbatim>\<open>gather\<close> is done when every task has returned, and raises when one
  has raised; a schedule that ends while a task is still suspended leaves the cycle
  \<open>Pending\<close>.
\<close>

datatype call = LoadDisk string | LoadSensors | SendData

definition calls :: "config \<Rightarrow> call list" where
  "calls cfg = map LoadDisk (disk_names cfg) @ [LoadSensors, SendData]"

fun start :: "config \<Rightarrow> bool \<Rightarrow> call \<Rightarrow> state \<Rightarrow> step \<times> state" where
  "start cfg dry_run (LoadDisk disk_name) s = load_disk_start cfg disk_name s"
| "start cfg dry_run LoadSensors s = load_sensors_start s"
| "start cfg dry_run SendData s = send_data_start dry_run s"

fun resume :: "config \<Rightarrow> world \<Rightarrow> coro \<Rightarrow> state \<Rightarrow> step \<times> state" where
  "resume cfg w (AwaitTool disk_name command) s = load_disk_resume w disk_name command s"
| "resume cfg w AwaitSensors s = load_sensors_resume cfg w s"
| "resume cfg w AwaitConnect s = send_connected cfg w s"
| "resume cfg w AwaitDrain s = send_loop s"
| "resume cfg w AwaitClosed s = (Return, s)"

fun start_all :: "config \<Rightarrow> bool \<Rightarrow> call list \<Rightarrow> state \<Rightarrow> step list \<times> state" where
  "start_all cfg dry_run [] s = ([], s)"
| "start_all cfg dry_run (c # cs) s =
     (case start cfg dry_run c s of
        (st, s1) \<Rightarrow> (case start_all cfg dry_run cs s1 of (sts, s2) \<Rightarrow> (st # sts, s2)))"

fun first_raise :: "step list \<Rightarrow> error option" where
  "first_raise [] = None"
| "first_raise (Raise e # sts) = Some e"
| "first_raise (st # sts) = first_raise sts"

fun run_events :: "config \<Rightarrow> world \<Rightarrow> nat list \<Rightarrow> step list \<Rightarrow> state \<Rightarrow> outcome" where
  "run_events cfg w [] tasks s = (if list_all (\<lambda>st. st = Return) tasks then Done s else Pending s)"
| "run_events cfg w (i # rest) tasks s =
     (if list_all (\<lambda>st. st = Return) tasks then Done s
      else if i < length tasks then
        (case tasks ! i of
           Suspend c \<Rightarrow>
             (case resume cfg w c s of
                (Raise e, s') \<Rightarrow> Raised e s'
              | (st, s') \<Rightarrow> run_events cfg w rest (tasks[i := st]) s')
         | _ \<Rightarrow> run_events cfg w rest tasks s)
      else run_events cfg w rest tasks s)"

definition gather :: "config \<Rightarrow> bool \<Rightarrow> world \<Rightarrow> call list \<Rightarrow> state \<Rightarrow> outcome" where
  "gather cfg dry_run w cs s =
     (case start_all cfg dry_run cs s of
        (tasks, s1) \<Rightarrow>
          (case first_raise tasks of
             Some e \<Rightarrow> Raised e s1
           | None \<Rightarrow> run_events cfg w (schedule w) tasks s1))"

definition cycle :: "config \<Rightarrow> bool \<Rightarrow> world \<Rightarrow> state \<Rightarrow> outcome" where
  \<comment> \<open>the \<^verbatim>\<open>gather\<close> of one iteration of \<^verbatim>\<open>main\<close>\<close>
  "cycle cfg dry_run w s = gather cfg dry_run w (calls cfg) s"

definition py_mod :: "real \<Rightarrow> real \<Rightarrow> real" where
  \<comment> \<open>\<^verbatim>\<open>x % y\<close> on floats, for \<open>y \<noteq> 0\<close>: the remainder has the sign of \<open>y\<close>\<close>
  "py_mod x y = x - y * of_int \<lfloor>x / y\<rfloor>"

definition sleep_duration :: "real \<Rightarrow> real \<Rightarrow> error + real" where
  \<comment> \<open>\<^verbatim>\<open>INTERVAL - time.time() % INTERVAL\<close>\<close>
  "sleep_duration interval t =
     (if interval = 0 then Inl ZeroDivisionError else Inr (interval - py_mod t interval))"


text \<open>
  A coroutine run on its own, with nothing else scheduled between its segments: this is
  what a caller that simply awaits it sees.
\<close>

definition rank :: "step \<times> state \<Rightarrow> nat" where
  "rank r =
     (case fst r of
        Suspend AwaitConnect \<Rightarrow> 4 + 2 * length (data (snd r))
      | Suspend AwaitDrain \<Rightarrow> 3 + 2 * length (data (snd r))
      | Suspend _ \<Rightarrow> 1
      | _ \<Rightarrow> 0)"

function run_alone :: "config \<Rightarrow> world \<Rightarrow> step \<times> state \<Rightarrow> outcome" where
  "run_alone cfg w (Return, s) = Done s"
| "run_alone cfg w (Raise e, s) = Raised e s"
| "run_alone cfg w (Suspend c, s) = run_alone cfg w (resume cfg w c s)"
  by pat_completeness auto
termination
proof (relation "measure (\<lambda>(cfg, w, r). rank r)")
  show "wf (measure (\<lambda>(cfg, w, r). rank r))"
    by simp
next
  fix cfg :: config and w :: world and c :: coro and s :: state
  show "((cfg, w, resume cfg w c s), (cfg, w, Suspend c, s)) \<in> measure (\<lambda>(cfg, w, r). rank r)"
    by (cases c)
       (auto simp: rank_def load_disk_resume_def load_sensors_resume_def send_connected_def
          send_loop_def
          split: sum.splits if_splits option.splits list.splits prod.splits)
qed

definition load_disk :: "config \<Rightarrow> world \<Rightarrow> string \<Rightarrow> state \<Rightarrow> outcome" where
  "load_disk cfg w disk_name s = run_alone cfg w (load_disk_start cfg disk_name s)"

definition load_sensors :: "config \<Rightarrow> world \<Rightarrow> state \<Rightarrow> outcome" where
  "load_sensors cfg w s = run_alone cfg w (load_sensors_start s)"

definition send_data :: "config \<Rightarrow> bool \<Rightarrow> world \<Rightarrow> state \<Rightarrow> outcome" where
  "send_data cfg dry_run w s = run_alone cfg w (send_data_start dry_run s)"

section \<open>Concrete inputs\<close>

text \<open>
  A host with one disk and one named sensor, used wherever a statement below is
  evaluated at a concrete input.
\<close>

definition example_env :: env where
  "example_env =
     \<lparr>nodename = ''box'', progname = ''syslog.py'', pid = 4711,
      utc_stamp = ''Nov 04 12:00:23'', local_iso = ''2026-11-04T13:00:23.000042+01:00'',
      float_repr = (\<lambda>r. show_int \<lfloor>r\<rfloor> @ ''.0'')\<rparr>"

definition example_config :: config where
  "example_config =
     \<lparr>logger_addr = ''loghost'', logger_port = 514, INTERVAL = 60,
      disk_names = [''sda''],
      disk_devices = [(''__default__'', ''/dev/sda'')],
      disk_kinds = None,
      sensor_names = [''cpu''],
      sensor_devices = [(''cpu'', [''coretemp'', ''Core 0'', ''temp2_input$''])]\<rparr>"

definition example_tree :: json where
  "example_tree =
     JObj [(''coretemp-isa-0000'',
            JObj [(''Core 0'', JObj [(''temp2_input'', JReal 42), (''temp2_max'', JReal 80)]),
                  (''Core 1'', JObj [(''temp3_input'', JReal 44), (''temp3_max'', JReal 80)])])]"

definition example_smart_line :: "string list" where
  "example_smart_line =
     [''194'', ''Temperature_Celsius'', ''0x0022'', ''035'', ''050'', ''000'', ''Old_age'',
      ''Always'', ''-'', ''35'']"

definition example_world :: world where
  "example_world =
     \<lparr>matcher = re_match, clock = (\<lambda>name. example_env),
      smartctl = (\<lambda>command. [[''Device'', ''Model:'', ''WDC'', ''WD10''], example_smart_line]),
      sensors = Inr example_tree, connect = None, schedule = [1, 0], now = 23\<rparr>"

definition idle :: state where
  \<comment> \<open>the state \<^verbatim>\<open>__init__\<close> leaves: \<^verbatim>\<open>self.data = list()\<close>, nothing printed or sent\<close>
  "idle = \<lparr>data = [], stdout = [], wire = [], slept = []\<rparr>"

text \<open>
  The two lines the example host produces: the sensor reading and the disk reading.
\<close>

definition example_line :: "message \<Rightarrow> string" where
  "example_line out =
     join '' '' (header example_env 30 @ [json_dumps (float_repr example_env) (JObj out)])"

definition example_sensor_line :: string where
  "example_sensor_line =
     example_line [(''name'', JStr ''cpu''), (''hostname'', JStr ''box''),
                   (''timereported'', JStr ''2026-11-04T13:00:23.000042+01:00''),
                   (''cpu'', JReal 42)]"

definition example_disk_line :: string where
  "example_disk_line =
     example_line [(''name'', JStr ''sda''), (''model'', JStr ''WDC WD10''),
                   (''hostname'', JStr ''box''),
                   (''timereported'', JStr ''2026-11-04T13:00:23.000042+01:00''),
                   (''sda'', JReal 35)]"

section \<open>Notions used to state the properties\<close>

fun first_error :: "(error + 'a) list \<Rightarrow> error + 'a list" where
  \<comment> \<open>the results of a list of computations run in order, or the first exception\<close>
  "first_error [] = Inr []"
| "first_error (Inl e # rs) = Inl e"
| "first_error (Inr x # rs) = (case first_error rs of Inl e \<Rightarrow> Inl e | Inr xs \<Rightarrow> Inr (x # xs))"

definition facility_of :: "message \<Rightarrow> int" where
  "facility_of message = (case map_of message ''Facility'' of Some (JInt f) \<Rightarrow> f | _ \<Rightarrow> 3)"

definition priority_of :: "message \<Rightarrow> int" where
  "priority_of message = (case map_of message ''Priority'' of Some (JInt p) \<Rightarrow> p | _ \<Rightarrow> 6)"

fun sample :: "json \<Rightarrow> rat option" where
  "sample (JInt i) = Some (of_int i)"
| "sample (JReal r) = Some r"
| "sample _ = None"

definition attribute_line :: "string list \<Rightarrow> bool" where
  \<comment> \<open>a line whose first token is one of the two attribute identifiers the code knows\<close>
  "attribute_line line = (line \<noteq> [] \<and> hd line \<in> set [''190'', ''194''])"

subsection \<open>Reading a JSON array of strings\<close>

text \<open>
  What a JSON reader makes of a text that is an array of strings: the inverse that
  gives \<^verbatim>\<open>json.dumps\<close> its meaning. Whitespace may surround the brackets, the items
  and the commas; inside a string a backslash starts an escape sequence.
\<close>

definition is_ws :: "char \<Rightarrow> bool" where
  "is_ws c = (c = CHR '' '' \<or> c = CHR 0x0A \<or> c = CHR 0x0D \<or> c = CHR 0x09)"

definition hex_value :: "char \<Rightarrow> nat option" where
  "hex_value c =
     (let n = (of_char c :: nat) in
      if 48 \<le> n \<and> n \<le> 57 then Some (n - 48)
      else if 97 \<le> n \<and> n \<le> 102 then Some (n - 87)
      else if 65 \<le> n \<and> n \<le> 70 then Some (n - 55)
      else None)"

definition unescape :: "char \<Rightarrow> char option" where
  "unescape e =
     (if e = CHR 0x22 then Some (CHR 0x22)
      else if e = CHR 0x5C then Some (CHR 0x5C)
      else if e = CHR ''/'' then Some (CHR ''/'')
      else if e = CHR ''n'' then Some (CHR 0x0A)
      else if e = CHR ''r'' then Some (CHR 0x0D)
      else if e = CHR ''t'' then Some (CHR 0x09)
      else if e = CHR ''b'' then Some (CHR 0x08)
      else if e = CHR ''f'' then Some (CHR 0x0C)
      else None)"

definition prepend :: "char \<Rightarrow> (string \<times> string) option \<Rightarrow> (string \<times> string) option" where
  "prepend c r = map_option (\<lambda>sr. (c # fst sr, snd sr)) r"

definition read_escape :: "string \<Rightarrow> (char \<times> string) option" where
  \<comment> \<open>the character an escape sequence stands for, and what follows it; the input starts
      after the backslash\<close>
  "read_escape cs =
     (case cs of
        [] \<Rightarrow> None
      | e # rest \<Rightarrow>
          if e = CHR ''u'' then
            (case rest of
               h3 # h2 # h1 # h0 # rest' \<Rightarrow>
                 (case (hex_value h3, hex_value h2, hex_value h1, hex_value h0) of
                    (Some a, Some b, Some c, Some d) \<Rightarrow>
                      if ((a * 16 + b) * 16 + c) * 16 + d < 256
                      then Some (char_of (((a * 16 + b) * 16 + c) * 16 + d), rest')
                      else None
                  | _ \<Rightarrow> None)
             | _ \<Rightarrow> None)
          else map_option (\<lambda>ch. (ch, rest)) (unescape e))"

lemma read_escape_shorter: "read_escape cs = Some (ch, rest) \<Longrightarrow> length rest < length cs"
  by (auto simp: read_escape_def split: list.splits if_splits option.splits)

function read_string :: "string \<Rightarrow> (string \<times> string) option" where
  "read_string [] = None"
| "read_string (c # cs) =
     (if c = CHR 0x22 then Some ([], cs)
      else if c = CHR 0x5C then
        (case read_escape cs of
           None \<Rightarrow> None
         | Some (ch, rest) \<Rightarrow> prepend ch (read_string rest))
      else if (of_char c :: nat) < 32 then None
      else prepend c (read_string cs))"
  by pat_completeness auto
termination
  by (relation "measure length") (auto dest: read_escape_shorter)

lemma read_string_shorter: "read_string cs = Some (s, r) \<Longrightarrow> length r < length cs"
proof (induction cs arbitrary: s r rule: read_string.induct)
  case 1
  then show ?case by simp
next
  case (2 c cs)
  show ?case
  proof (cases "c = CHR 0x22")
    case True
    with "2.prems" show ?thesis by simp
  next
    case quote: False
    show ?thesis
    proof (cases "c = CHR 0x5C")
      case True
      with quote "2.prems" obtain ch rest s' where e: "read_escape cs = Some (ch, rest)"
        and r: "read_string rest = Some (s', r)"
        by (auto simp: prepend_def split: option.splits)
      from "2.IH"(1) [OF quote True e refl r] read_escape_shorter [OF e]
      show ?thesis by simp
    next
      case False
      with quote "2.prems" obtain s' where r: "read_string cs = Some (s', r)" and "\<not> of_char c < (32::nat)"
        by (auto simp: prepend_def split: option.splits if_splits)
      from "2.IH"(2) [OF quote False this(2) r] show ?thesis by simp
    qed
  qed
qed

function read_items :: "string \<Rightarrow> string list option" where
  "read_items [] = None"
| "read_items (c # cs) =
     (if c \<noteq> CHR 0x22 then None
      else
        (case read_string cs of
           None \<Rightarrow> None
         | Some (s, r) \<Rightarrow>
             (case dropWhile is_ws r of
                [] \<Rightarrow> None
              | d # r' \<Rightarrow>
                  if d = CHR '','' then map_option ((#) s) (read_items (dropWhile is_ws r'))
                  else if d = CHR '']'' \<and> dropWhile is_ws r' = [] then Some [s]
                  else None)))"
  by pat_completeness auto
termination
proof (relation "measure length")
  show "wf (measure length)" by simp
next
  fix c :: char and cs x2 x y x22 and x21 :: char
  assume "read_string cs = Some x2" and "(x, y) = x2" and "dropWhile is_ws y = x21 # x22"
  then have "length y < length cs" and "length (x21 # x22) \<le> length y"
    using read_string_shorter [of cs x y] length_dropWhile_le [of is_ws y] by auto
  moreover have "length (dropWhile is_ws x22) \<le> length x22"
    by (rule length_dropWhile_le)
  ultimately show "(dropWhile is_ws x22, c # cs) \<in> measure length"
    by simp
qed

definition json_loads_strings :: "string \<Rightarrow> string list option" where
  "json_loads_strings input =
     (case dropWhile is_ws input of
        [] \<Rightarrow> None
      | c # r \<Rightarrow>
          if c \<noteq> CHR ''['' then None
          else
            (case dropWhile is_ws r of
               [] \<Rightarrow> None
             | d # r' \<Rightarrow>
                 if d = CHR '']'' then (if dropWhile is_ws r' = [] then Some [] else None)
                 else read_items (d # r')))"

subsection \<open>What a collector contributes\<close>

definition produced :: "config \<Rightarrow> world \<Rightarrow> coro \<Rightarrow> string list" where
  \<comment> \<open>the messages a suspended task appends when it is resumed\<close>
  "produced cfg w c = data (snd (resume cfg w c idle))"

definition collected :: "config \<Rightarrow> world \<Rightarrow> nat \<Rightarrow> string list" where
  \<comment> \<open>the messages of the collector at position \<open>i\<close> of the \<^verbatim>\<open>gather\<close>: the disks in
      configured order, then the sensor collector\<close>
  "collected cfg w i =
     (if i < length (disk_names cfg) then
        (case disk_command cfg (disk_names cfg ! i) of
           Inl e \<Rightarrow> []
         | Inr command \<Rightarrow> produced cfg w (AwaitTool (disk_names cfg ! i) command))
      else produced cfg w AwaitSensors)"

fun collector :: "coro \<Rightarrow> bool" where
  \<comment> \<open>the await points of the two collectors\<close>
  "collector (AwaitTool disk_name command) = True"
| "collector AwaitSensors = True"
| "collector _ = False"

definition disk_task :: "config \<Rightarrow> string \<Rightarrow> step" where
  \<comment> \<open>how the first segment of \<^verbatim>\<open>load_disk\<close> ends\<close>
  "disk_task cfg disk_name =
     (case disk_command cfg disk_name of
        Inl e \<Rightarrow> Raise e
      | Inr command \<Rightarrow> Suspend (AwaitTool disk_name command))"

section \<open>Properties of \<^verbatim>\<open>select_readings\<close>\<close>

lemma select_values_pairs:
  assumes "\<And>k v. (k, v) \<in> set d' \<Longrightarrow> map_of d k = Some v"
  shows "select_values matches d (map fst d') p
         = Inr (map snd (filter (\<lambda>kv. matches p (fst kv)) d'))"
  using assms
proof (induction d')
  case Nil
  show ?case by simp
next
  case (Cons kv d')
  obtain k v where kv: "kv = (k, v)" by (cases kv)
  have here: "getitem d k = Inr v"
    using Cons.prems [of k v] by (simp add: kv getitem_def)
  have rest: "select_values matches d (map fst d') p
              = Inr (map snd (filter (\<lambda>kv. matches p (fst kv)) d'))"
    using Cons.IH Cons.prems by simp
  show ?case by (simp add: kv here rest)
qed

lemma select_each_pairs:
  assumes "\<And>k v. (k, v) \<in> set d' \<Longrightarrow> map_of d k = Some v"
  shows "select_each matches d (map fst d') (p # ps)
         = first_error (map (\<lambda>kv. select_readings matches (snd kv) ps)
                            (filter (\<lambda>kv. matches p (fst kv)) d'))"
  using assms
proof (induction d')
  case Nil
  show ?case by simp
next
  case (Cons kv d')
  obtain k v where kv: "kv = (k, v)" by (cases kv)
  have here: "getitem d k = Inr v"
    using Cons.prems [of k v] by (simp add: kv getitem_def)
  have rest: "select_each matches d (map fst d') (p # ps)
              = first_error (map (\<lambda>kv. select_readings matches (snd kv) ps)
                                 (filter (\<lambda>kv. matches p (fst kv)) d'))"
    using Cons.IH Cons.prems by simp
  show ?case
    by (cases "select_readings matches v ps") (simp_all add: kv here rest)
qed

lemma foldl_append_concat: "foldl (@) r rs = r @ concat rs"
  by (induction rs arbitrary: r) simp_all

lemma distinct_keys_lookup:
  "distinct (map fst d) \<Longrightarrow> (k, v) \<in> set d \<Longrightarrow> map_of d k = Some v"
  by simp

lemma re_fullmatch_imp_re_match: "re_fullmatch p key \<Longrightarrow> re_match p key"
  by (induction p key rule: re_match.induct) (auto split: list.splits if_splits)

text \<open>
  Claim C2, on the code. A three-level tree, and a selector whose second pattern
  matches no key of the one chip: \<^verbatim>\<open>reduce\<close> is handed an empty list and raises
  \<^verbatim>\<open>TypeError\<close>, where the claim promises an empty list. The last pattern matching no
  key is harmless: that level is the list comprehension of the first \<^verbatim>\<open>return\<close>.
\<close>

theorem select_no_match_inner_level_raises:
  "select_readings re_match example_tree [''coretemp'', ''Fan'', ''temp2_input$''] = Inl TypeError
   \<and> select_readings re_match example_tree [''coretemp'', ''Core 0'', ''fan1_input$''] = Inr []"
  by (simp add: example_tree_def getitem_def re_atom_def)

text \<open>
  Claim C3 as stated, refuted. \<^verbatim>\<open>re.match\<close> anchors the pattern at the start of the
  key only: the pattern \<^verbatim>\<open>temp2\<close> selects the values of both \<^verbatim>\<open>temp2_input\<close> and
  \<^verbatim>\<open>temp2_max\<close>, neither of which it matches in full.
\<close>

theorem select_prefix_match_counterexample:
  "select_readings re_match
     (JObj [(''temp2_input'', JReal 42), (''temp2_max'', JReal 80)]) [''temp2'']
     = Inr [JReal 42, JReal 80]
   \<and> map snd (filter (\<lambda>kv. re_fullmatch ''temp2'' (fst kv))
                 [(''temp2_input'', JReal 42), (''temp2_max'', JReal 80)]) = []"
  by (simp add: getitem_def re_atom_def)

text \<open>
  Claim C3, amended: for a mapping (its keys distinct, as in every Python
  \<^verbatim>\<open>dict\<close>) and a selector sequence of length exactly 1, \<^verbatim>\<open>select_readings\<close> returns
  the values, in key order, of every direct child key that \<^verbatim>\<open>re.match\<close> accepts for
  the pattern: the pattern has to match at the start of the key, not the whole key.
\<close>

theorem select_single_pattern:
  assumes "distinct (map fst sensors_data)"
  shows "select_readings matches (JObj sensors_data) [p]
         = Inr (map snd (filter (\<lambda>kv. matches p (fst kv)) sensors_data))"
proof -
  have "select_values matches sensors_data (map fst sensors_data) p
        = Inr (map snd (filter (\<lambda>kv. matches p (fst kv)) sensors_data))"
    by (rule select_values_pairs) (rule distinct_keys_lookup [OF assms])
  then show ?thesis by simp
qed

theorem select_single_pattern_witness:
  "distinct (map fst [(''temp2_input'', JReal 42), (''temp2_max'', JReal 80)])
   \<and> select_readings re_match
       (JObj [(''temp2_input'', JReal 42), (''temp2_max'', JReal 80)]) [''temp2_input$'']
     = Inr [JReal 42]"
proof -
  have d: "distinct (map fst [(''temp2_input'', JReal 42), (''temp2_max'', JReal 80)])"
    by simp
  show ?thesis
    using d select_single_pattern [OF d, of re_match "''temp2_input$''"]
    by (simp add: re_atom_def)
qed

text \<open>
  Claim C4, on the code. With two selectors of which the first matches no key of the
  tree, the concatenation of the recursive selections is the empty list (there is no
  matching child), but \<^verbatim>\<open>reduce\<close> raises \<^verbatim>\<open>TypeError\<close> on the empty list of results.
  This is the defect of claim C2.
\<close>

theorem select_no_match_first_level_raises:
  "filter (\<lambda>kv. re_match ''nct6775'' (fst kv))
     [(''coretemp-isa-0000'', JObj [(''temp1_input'', JReal 42)])] = []
   \<and> select_readings re_match
       (JObj [(''coretemp-isa-0000'', JObj [(''temp1_input'', JReal 42)])])
       [''nct6775'', ''temp1_input$'']
     = Inl TypeError"
  by (simp add: getitem_def re_atom_def)

text \<open>
  What does hold of the recursive case: when at least one direct child key matches the
  first pattern, the result is the concatenation, in key order, of the recursive
  selections (and the first exception among them, if one raises).
\<close>

theorem select_concatenates:
  assumes "distinct (map fst sensors_data)"
      and "filter (\<lambda>kv. matches p (fst kv)) sensors_data \<noteq> []"
  shows "select_readings matches (JObj sensors_data) (p # q # qs)
         = (case first_error (map (\<lambda>kv. select_readings matches (snd kv) (q # qs))
                                  (filter (\<lambda>kv. matches p (fst kv)) sensors_data)) of
              Inl e \<Rightarrow> Inl e
            | Inr results \<Rightarrow> Inr (concat results))"
proof -
  let ?rs = "map (\<lambda>kv. select_readings matches (snd kv) (q # qs))
                 (filter (\<lambda>kv. matches p (fst kv)) sensors_data)"
  have each: "select_each matches sensors_data (map fst sensors_data) (p # q # qs)
              = first_error ?rs"
    by (rule select_each_pairs) (rule distinct_keys_lookup [OF assms(1)])
  have nonempty: "first_error ?rs = Inr results \<Longrightarrow> results \<noteq> []" for results
    using assms(2)
    by (cases "filter (\<lambda>kv. matches p (fst kv)) sensors_data")
       (auto split: sum.splits elim: first_error.elims)
  show ?thesis
  proof (cases "first_error ?rs")
    case (Inl e)
    then show ?thesis by (simp add: each)
  next
    case (Inr results)
    with nonempty obtain r rs where "results = r # rs"
      by (cases results) auto
    with Inr show ?thesis
      by (simp add: each foldl_append_concat)
  qed
qed

theorem select_concatenates_witness:
  "distinct (map fst [(''Core 0'', JObj [(''temp2_input'', JReal 42)]),
                      (''Core 1'', JObj [(''temp3_input'', JReal 44)])])
   \<and> select_readings re_match
       (JObj [(''Core 0'', JObj [(''temp2_input'', JReal 42)]),
              (''Core 1'', JObj [(''temp3_input'', JReal 44)])])
       [''Core'', ''temp'']
     = Inr [JReal 42, JReal 44]"
proof -
  let ?d = "[(''Core 0'', JObj [(''temp2_input'', JReal 42)]),
             (''Core 1'', JObj [(''temp3_input'', JReal 44)])]"
  have d: "distinct (map fst ?d)"
    by simp
  have m: "filter (\<lambda>kv. re_match ''Core'' (fst kv)) ?d \<noteq> []"
    by (simp add: re_atom_def)
  show ?thesis
    using d
      select_concatenates [where sensors_data = ?d and matches = re_match
        and p = "''Core''" and q = "''temp''" and qs = "[]", OF d m]
    by (simp add: re_atom_def getitem_def)
qed

section \<open>Properties of \<^verbatim>\<open>format_message\<close>\<close>

subsection \<open>The priority value\<close>

lemma shift_or_eq_add:
  assumes "0 \<le> p" and "p < 8"
  shows "push_bit 3 f OR p = f * 8 + (p::int)"
proof -
  have p: "take_bit 3 p = p"
    using assms by (simp add: take_bit_int_eq_self)
  have "push_bit 3 f AND take_bit 3 p = 0"
    by (rule bit_eqI) (auto simp: bit_simps)
  then have "push_bit 3 f + p = push_bit 3 f OR p"
    using p by (simp add: disjunctive_add_eq_or)
  then show ?thesis
    by (simp add: push_bit_eq_mult)
qed

lemma pri_value_in_range:
  assumes "pri_value message = Inr v"
      and "0 \<le> priority_of message" and "priority_of message < 8"
  shows "v = facility_of message * 8 + priority_of message"
proof -
  have six: "push_bit 3 f OR 6 = f * 8 + (6::int)" for f
    by (rule shift_or_eq_add) simp_all
  have daemon: "24 OR p = 24 + p" if "0 \<le> p" "p < 8" for p :: int
    using shift_or_eq_add [OF that, of 3] by simp
  show ?thesis
    using assms shift_or_eq_add [of "priority_of message"] six daemon
    by (auto simp: pri_value_def bind_def contains_def getitem_def facility_of_def priority_of_def
          push_bit_eq_mult
          split: option.splits json.splits if_splits sum.splits
          elim!: lshift.elims bit_or.elims)
qed

lemma format_message_shape:
  assumes "format_message env message = Inr line"
  shows "\<exists>v out. pri_value message = Inr v \<and> payload env message = Inr out
           \<and> line = ''<'' @ show_int v @ ''>'' @ utc_stamp env @ '' '' @ nodename env @ '' ''
                @ progname env @ ''['' @ show_nat (pid env) @ '']:'' @ '' @cee: ''
                @ json_dumps (float_repr env) (JObj out)"
  using assms
  by (auto simp: format_message_def bind_def header_def split: sum.splits)

text \<open>
  Claim C5, amended: for every message whose priority, when given, lies in the range 0
  to 7, the value between \<^verbatim>\<open><\<close> and \<^verbatim>\<open>>\<close> at the start of the formatted line is
  facility \<times> 8 + priority, where the facility defaults to 3 and the priority to 6. (The
  code computes \<^verbatim>\<open>(facility << 3) | priority\<close>, which is that sum exactly when the
  priority has no bit above the lowest three.)
\<close>

theorem header_priority:
  assumes "format_message env message = Inr line"
      and "0 \<le> priority_of message" and "priority_of message < 8"
  shows "pri_value message = Inr (facility_of message * 8 + priority_of message)
         \<and> (\<exists>rest. line = ''<'' @ show_int (facility_of message * 8 + priority_of message) @ ''>'' @ rest)"
proof -
  from format_message_shape [OF assms(1)]
  obtain v out where v: "pri_value message = Inr v"
    and line: "line = ''<'' @ show_int v @ ''>'' @ utc_stamp env @ '' '' @ nodename env @ '' ''
                @ progname env @ ''['' @ show_nat (pid env) @ '']:'' @ '' @cee: ''
                @ json_dumps (float_repr env) (JObj out)"
    by blast
  have "v = facility_of message * 8 + priority_of message"
    using v assms(2,3) by (rule pri_value_in_range)
  with v line show ?thesis by simp
qed

text \<open>
  Claim C5 as stated, refuted: with facility 1 and priority 9 the header carries
  \<^verbatim>\<open><9>\<close>, the bitwise OR of 8 and 9, and not 1 \<times> 8 + 9 = 17.
\<close>

theorem header_priority_counterexample:
  "pri_value [(''name'', JStr ''sda''), (''readings'', JArr [JInt 35]),
              (''Facility'', JInt 1), (''Priority'', JInt 9)] = Inr 9
   \<and> map_sum id (take 3)
         (format_message example_env
            [(''name'', JStr ''sda''), (''readings'', JArr [JInt 35]),
             (''Facility'', JInt 1), (''Priority'', JInt 9)]) = Inr ''<9>''
   \<and> (1::int) * 8 + 9 = 17"
  by (simp add: format_message_def payload_def pri_value_def bind_def contains_def getitem_def
        mean_of_def reduce_add_def dict_update_def delitem_def header_def show_int_def
        show_nat.simps digit_char_def)

text \<open>
  The defaults give \<^verbatim>\<open><30>\<close>; facility 1 with priority 5 gives \<^verbatim>\<open><13>\<close>.
\<close>

theorem header_priority_witness:
  "0 \<le> priority_of [(''name'', JStr ''cpu''), (''readings'', JArr [JReal 42])]
   \<and> priority_of [(''name'', JStr ''cpu''), (''readings'', JArr [JReal 42])] < 8
   \<and> (\<exists>rest. format_message example_env
                 [(''name'', JStr ''cpu''), (''readings'', JArr [JReal 42])]
               = Inr (''<30>'' @ rest))
   \<and> (\<exists>rest. format_message example_env
                 [(''name'', JStr ''sda''), (''readings'', JArr [JInt 35]),
                  (''Facility'', JInt 1), (''Priority'', JInt 5)]
               = Inr (''<13>'' @ rest))"
proof -
  let ?m1 = "[(''name'', JStr ''cpu''), (''readings'', JArr [JReal 42])]"
  let ?m2 = "[(''name'', JStr ''sda''), (''readings'', JArr [JInt 35]),
              (''Facility'', JInt 1), (''Priority'', JInt 5)]"
  have p1: "0 \<le> priority_of ?m1" "priority_of ?m1 < 8"
    by (simp_all add: priority_of_def)
  have p2: "0 \<le> priority_of ?m2" "priority_of ?m2 < 8"
    by (simp_all add: priority_of_def)
  obtain l1 where l1: "format_message example_env ?m1 = Inr l1"
    by (simp add: format_message_def payload_def pri_value_def bind_def contains_def
          getitem_def mean_of_def reduce_add_def dict_update_def delitem_def)
  obtain l2 where l2: "format_message example_env ?m2 = Inr l2"
    by (simp add: format_message_def payload_def pri_value_def bind_def contains_def
          getitem_def mean_of_def reduce_add_def dict_update_def delitem_def)
  have v1: "show_int (facility_of ?m1 * 8 + priority_of ?m1) = ''30''"
    by (simp add: facility_of_def priority_of_def show_int_def show_nat.simps digit_char_def)
  have v2: "show_int (facility_of ?m2 * 8 + priority_of ?m2) = ''13''"
    by (simp add: facility_of_def priority_of_def show_int_def show_nat.simps digit_char_def)
  from header_priority [OF l1 p1] v1 have "\<exists>rest. l1 = ''<30>'' @ rest"
    by simp
  moreover from header_priority [OF l2 p2] v2 have "\<exists>rest. l2 = ''<13>'' @ rest"
    by simp
  ultimately show ?thesis
    using p1 l1 l2 by simp
qed

subsection \<open>The mean and the payload\<close>

lemma json_add_samples:
  assumes "sample x = Some a" and "sample y = Some b"
  shows "\<exists>z. json_add x y = Inr z \<and> sample z = Some (a + b)"
  using assms by (cases x; cases y) auto

lemma reduce_from_samples:
  assumes "map sample xs = map Some rs" and "sample acc = Some a"
  shows "\<exists>tot. reduce_from acc xs = Inr tot \<and> sample tot = Some (a + sum_list rs)"
  using assms
proof (induction xs arbitrary: acc a rs)
  case Nil
  then show ?case by simp
next
  case (Cons x xs)
  from Cons.prems(1) obtain r rs' where rs: "rs = r # rs'" and x: "sample x = Some r"
    and rest: "map sample xs = map Some rs'"
    by (cases rs) auto
  from json_add_samples [OF Cons.prems(2) x]
  obtain z where z: "json_add acc x = Inr z" "sample z = Some (a + r)"
    by blast
  from Cons.IH [OF rest z(2)]
  obtain tot where "reduce_from z xs = Inr tot" "sample tot = Some (a + r + sum_list rs')"
    by blast
  then show ?case
    by (simp add: z(1) rs bind_def add.assoc)
qed

lemma truediv_sample:
  assumes "sample tot = Some t" and "0 < n"
  shows "truediv tot n = Inr (JReal (t / of_nat n))"
  using assms by (cases tot) auto

lemma mean_of_samples:
  assumes "map sample xs = map Some rs" and "xs \<noteq> []"
  shows "mean_of (JArr xs) = Inr (JReal (sum_list rs / of_nat (length rs)))"
proof -
  from assms obtain x xs' where xs: "xs = x # xs'"
    by (cases xs) auto
  with assms(1) obtain r rs' where rs: "rs = r # rs'" and x: "sample x = Some r"
    and rest: "map sample xs' = map Some rs'"
    by (cases rs) auto
  from reduce_from_samples [OF rest x]
  obtain tot where tot: "reduce_from x xs' = Inr tot" "sample tot = Some (r + sum_list rs')"
    by blast
  have len: "length xs' = length rs'"
    using rest by (metis length_map)
  have "truediv tot (length xs) = Inr (JReal ((r + sum_list rs') / of_nat (length xs)))"
    using tot(2) by (rule truediv_sample) (simp add: xs)
  then show ?thesis
    by (simp add: mean_of_def bind_def reduce_add_def xs rs tot(1) len)
qed

lemma mean_of_empty: "mean_of (JArr []) = Inl TypeError"
  by (simp add: mean_of_def bind_def reduce_add_def)

lemma map_of_dict_update:
  "map_of (dict_update d other) = map_of d ++ map_of (rev other)"
proof (induction other arbitrary: d)
  case Nil
  show ?case by (simp add: dict_update_def)
next
  case (Cons kv other)
  have "map_of (dict_update d (kv # other))
        = map_of (dict_update (AList.update (fst kv) (snd kv) d) other)"
    by (simp add: dict_update_def)
  also have "\<dots> = map_of (AList.update (fst kv) (snd kv) d) ++ map_of (rev other)"
    by (rule Cons.IH)
  also have "\<dots> = map_of d ++ map_of (rev (kv # other))"
    by (cases kv) (auto simp: update_conv' map_add_def fun_eq_iff split: option.splits)
  finally show ?case .
qed

lemma map_of_rev_distinct:
  assumes "distinct (map fst xs)"
  shows "map_of (rev xs) = map_of xs"
proof (rule ext)
  fix k
  have d: "distinct (map fst (rev xs))"
    using assms by (simp add: rev_map [symmetric])
  show "map_of (rev xs) k = map_of xs k"
  proof (cases "map_of xs k")
    case None
    then have "k \<notin> fst ` set xs" by (simp add: map_of_eq_None_iff)
    then have "map_of (rev xs) k = None" by (simp add: map_of_eq_None_iff)
    with None show ?thesis by simp
  next
    case (Some v)
    then have "(k, v) \<in> set xs" by (rule map_of_SomeD)
    then have "(k, v) \<in> set (rev xs)" by simp
    with d have "map_of (rev xs) k = Some v" by (simp only: map_of_eq_Some_iff)
    with Some show ?thesis by simp
  qed
qed

lemma distinct_dict_update:
  "distinct (map fst d) \<Longrightarrow> distinct (map fst (dict_update d other))"
  unfolding dict_update_def
  by (induction other arbitrary: d) (simp_all add: distinct_update)

lemma map_of_dict_literal:
  "map_of (dict_update [] other) = map_of (rev other)"
  by (simp add: map_of_dict_update)

lemma payload_lookup:
  assumes name: "map_of message ''name'' = Some (JStr name)"
      and readings: "map_of message ''readings'' = Some readings"
      and mean: "mean_of readings = Inr mean"
  shows "\<exists>out. payload env message = Inr out
           \<and> map_of out = (map_of message ++
                 [''hostname'' \<mapsto> JStr (nodename env), ''timereported'' \<mapsto> JStr (local_iso env),
                  name \<mapsto> mean])(''readings'' := None)"
proof -
  let ?lit = "dict_update []
                [(''hostname'', JStr (nodename env)), (''timereported'', JStr (local_iso env)),
                 (name, mean)]"
  let ?upd = "dict_update message ?lit"
  have lit: "map_of (rev ?lit) = [''hostname'' \<mapsto> JStr (nodename env),
                ''timereported'' \<mapsto> JStr (local_iso env), name \<mapsto> mean]"
  proof -
    have "distinct (map fst ?lit)"
      by (rule distinct_dict_update) simp
    then have "map_of (rev ?lit) = map_of ?lit"
      by (rule map_of_rev_distinct)
    also have "\<dots> = [''hostname'' \<mapsto> JStr (nodename env),
                ''timereported'' \<mapsto> JStr (local_iso env), name \<mapsto> mean]"
      by (simp add: map_of_dict_literal)
    finally show ?thesis .
  qed
  have upd: "map_of ?upd = map_of message ++ [''hostname'' \<mapsto> JStr (nodename env),
                ''timereported'' \<mapsto> JStr (local_iso env), name \<mapsto> mean]"
    by (simp only: map_of_dict_update lit)
  have present: "contains ?upd ''readings''"
    using readings by (simp only: contains_def upd) (simp add: map_add_def split: option.splits)
  have "payload env message = Inr (AList.delete ''readings'' ?upd)"
    using name readings mean present
    by (simp add: payload_def bind_def getitem_def delitem_def)
  moreover have "map_of (AList.delete ''readings'' ?upd)
        = (map_of message ++ [''hostname'' \<mapsto> JStr (nodename env),
              ''timereported'' \<mapsto> JStr (local_iso env), name \<mapsto> mean])(''readings'' := None)"
    by (simp only: delete_conv' upd)
  ultimately show ?thesis by blast
qed

lemma format_message_succeeds:
  assumes "map_of message ''name'' = Some (JStr name)"
      and "map_of message ''readings'' = Some (JArr samples)"
      and "map sample samples = map Some xs" and "samples \<noteq> []"
      and "pri_value message = Inr v"
  shows "\<exists>out. format_message env message = Inr out"
proof -
  have "mean_of (JArr samples) = Inr (JReal (sum_list xs / of_nat (length xs)))"
    using assms(3,4) by (rule mean_of_samples)
  from payload_lookup [OF assms(1,2) this, of env]
  obtain p where "payload env message = Inr p" by blast
  then show ?thesis
    using assms(5) by (simp add: format_message_def bind_def)
qed

lemma pri_value_default:
  assumes "map_of message ''Facility'' = None" and "map_of message ''Priority'' = None"
  shows "pri_value message = Inr 30"
  using assms by (simp add: pri_value_def bind_def contains_def)

text \<open>
  Claim C6, amended: for every Reading whose name is not the string \<^verbatim>\<open>readings\<close>
  and whose samples are numbers, if there is at least one sample the JSON object of the
  formatted line holds, under the key given by the name, the arithmetic mean of the
  samples (their sum divided by their count), and has no key \<^verbatim>\<open>readings\<close>; with zero
  samples formatting fails (with the \<^verbatim>\<open>TypeError\<close> that \<^verbatim>\<open>reduce\<close> raises on an
  empty list, the EmptyReading of the specification).
\<close>

theorem format_message_mean:
  assumes "map_of message ''name'' = Some (JStr name)" and "name \<noteq> ''readings''"
      and "map_of message ''readings'' = Some (JArr samples)"
      and "map sample samples = map Some xs"
      and "pri_value message = Inr v"
  shows "if samples = [] then format_message env message = Inl TypeError
         else \<exists>out. format_message env message
                       = Inr (join '' '' (header env v @ [json_dumps (float_repr env) (JObj out)]))
                \<and> payload env message = Inr out
                \<and> map_of out name = Some (JReal (sum_list xs / of_nat (length xs)))
                \<and> map_of out ''readings'' = None"
proof (cases "samples = []")
  case True
  then show ?thesis
    using assms by (simp add: format_message_def payload_def bind_def getitem_def mean_of_empty)
next
  case False
  have mean: "mean_of (JArr samples) = Inr (JReal (sum_list xs / of_nat (length xs)))"
    using assms(4) False by (rule mean_of_samples)
  from payload_lookup [OF assms(1) assms(3) mean, of env]
  obtain out where out: "payload env message = Inr out"
    and m: "map_of out = (map_of message ++
                 [''hostname'' \<mapsto> JStr (nodename env), ''timereported'' \<mapsto> JStr (local_iso env),
                  name \<mapsto> JReal (sum_list xs / of_nat (length xs))])(''readings'' := None)"
    by blast
  have "map_of out name = Some (JReal (sum_list xs / of_nat (length xs)))"
    using assms(2) by (simp add: m)
  moreover have "map_of out ''readings'' = None"
    by (simp add: m)
  moreover have "format_message env message
        = Inr (join '' '' (header env v @ [json_dumps (float_repr env) (JObj out)]))"
    using assms(5) out by (simp add: format_message_def bind_def)
  ultimately show ?thesis
    using False out by auto
qed


text \<open>
  The mean of 10, 20, 30 is 20, that of the single sample 7 is 7, and no samples is an
  error.
\<close>

theorem format_message_mean_witness:
  "(\<exists>out. format_message example_env
             [(''name'', JStr ''cpu''), (''readings'', JArr [JReal 10, JInt 20, JReal 30])]
           = Inr (join '' '' (header example_env 30
                   @ [json_dumps (float_repr example_env) (JObj out)]))
         \<and> map_of out ''cpu'' = Some (JReal 20) \<and> map_of out ''readings'' = None)
   \<and> (\<exists>out. payload example_env [(''name'', JStr ''sda''), (''readings'', JArr [JInt 7])]
           = Inr out
         \<and> map_of out ''sda'' = Some (JReal 7) \<and> map_of out ''readings'' = None)
   \<and> format_message example_env [(''name'', JStr ''cpu''), (''readings'', JArr [])]
       = Inl TypeError"
proof -
  let ?m1 = "[(''name'', JStr ''cpu''), (''readings'', JArr [JReal 10, JInt 20, JReal 30])]"
  let ?m2 = "[(''name'', JStr ''sda''), (''readings'', JArr [JInt 7])]"
  let ?m3 = "[(''name'', JStr ''cpu''), (''readings'', JArr [])]"
  have pri: "pri_value ?m1 = Inr 30" "pri_value ?m2 = Inr 30" "pri_value ?m3 = Inr 30"
    by (simp_all add: pri_value_def bind_def contains_def)
  have one: "if [JReal 10, JInt 20, JReal 30] = [] then format_message example_env ?m1 = Inl TypeError
         else \<exists>out. format_message example_env ?m1
                       = Inr (join '' '' (header example_env 30
                               @ [json_dumps (float_repr example_env) (JObj out)]))
                \<and> payload example_env ?m1 = Inr out
                \<and> map_of out ''cpu'' = Some (JReal (sum_list [10, 20, 30] / of_nat (length [10, 20, 30 :: rat])))
                \<and> map_of out ''readings'' = None"
    by (rule format_message_mean [where name = "''cpu''" and xs = "[10, 20, 30]"])
       (simp_all add: pri)
  have two: "if [JInt 7] = [] then format_message example_env ?m2 = Inl TypeError
         else \<exists>out. format_message example_env ?m2
                       = Inr (join '' '' (header example_env 30
                               @ [json_dumps (float_repr example_env) (JObj out)]))
                \<and> payload example_env ?m2 = Inr out
                \<and> map_of out ''sda'' = Some (JReal (sum_list [7] / of_nat (length [7 :: rat])))
                \<and> map_of out ''readings'' = None"
    by (rule format_message_mean [where name = "''sda''" and xs = "[7]"])
       (simp_all add: pri)
  have three: "if ([] :: json list) = [] then format_message example_env ?m3 = Inl TypeError
         else \<exists>out. format_message example_env ?m3
                       = Inr (join '' '' (header example_env 30
                               @ [json_dumps (float_repr example_env) (JObj out)]))
                \<and> payload example_env ?m3 = Inr out
                \<and> map_of out ''cpu'' = Some (JReal (sum_list [] / of_nat (length ([] :: rat list))))
                \<and> map_of out ''readings'' = None"
    by (rule format_message_mean [where name = "''cpu''" and xs = "[]"])
       (simp_all add: pri)
  from one two three show ?thesis
    by (simp del: join.simps) blast
qed

text \<open>
  Claim C6 as stated, refuted: a Reading named \<^verbatim>\<open>readings\<close>. The update stores the
  mean under the key \<^verbatim>\<open>readings\<close>, the \<^verbatim>\<open>del\<close> that follows removes it, and the
  object that is printed holds no mean at all.
\<close>

theorem format_message_mean_counterexample:
  "payload example_env
     [(''name'', JStr ''readings''), (''readings'', JArr [JReal 10, JReal 20, JReal 30])]
     = Inr [(''name'', JStr ''readings''), (''hostname'', JStr ''box''),
            (''timereported'', JStr ''2026-11-04T13:00:23.000042+01:00'')]
   \<and> format_message example_env
       [(''name'', JStr ''readings''), (''readings'', JArr [JReal 10, JReal 20, JReal 30])]
     = Inr (join '' '' (header example_env 30
             @ [json_dumps (float_repr example_env)
                  (JObj [(''name'', JStr ''readings''), (''hostname'', JStr ''box''),
                         (''timereported'', JStr ''2026-11-04T13:00:23.000042+01:00'')])]))"
proof -
  have p: "payload example_env
     [(''name'', JStr ''readings''), (''readings'', JArr [JReal 10, JReal 20, JReal 30])]
     = Inr [(''name'', JStr ''readings''), (''hostname'', JStr ''box''),
            (''timereported'', JStr ''2026-11-04T13:00:23.000042+01:00'')]"
    by (simp add: payload_def bind_def contains_def getitem_def mean_of_def reduce_add_def
          dict_update_def delitem_def example_env_def)
  have v: "pri_value
     [(''name'', JStr ''readings''), (''readings'', JArr [JReal 10, JReal 20, JReal 30])] = Inr 30"
    by (simp add: pri_value_def bind_def contains_def)
  show ?thesis
    by (simp only: p v format_message_def bind_def sum.case)
qed

section \<open>Properties of the scheduler's sleep\<close>

lemma py_mod_bounds:
  assumes "0 < y"
  shows "0 \<le> py_mod x y" and "py_mod x y < y"
proof -
  have "of_int \<lfloor>x / y\<rfloor> * y \<le> x"
    using of_int_floor_le [of "x / y"] assms by (simp only: pos_le_divide_eq)
  then show "0 \<le> py_mod x y"
    by (simp add: py_mod_def mult.commute)
  have "x < (of_int \<lfloor>x / y\<rfloor> + 1) * y"
    using real_of_int_floor_add_one_gt [of "x / y"] assms by (simp only: pos_divide_less_eq)
  then show "py_mod x y < y"
    by (simp add: py_mod_def algebra_simps)
qed

lemma py_mod_of_int:
  "py_mod (of_int a) (of_int b) = of_int (a mod b)"
proof -
  have "\<lfloor>(of_int a :: real) / of_int b\<rfloor> = a div b"
    by (simp add: floor_divide_of_int_eq)
  then have "py_mod (of_int a) (of_int b) = of_int a - of_int b * of_int (a div b)"
    by (simp add: py_mod_def)
  also have "\<dots> = of_int (a - b * (a div b))" by simp
  also have "a - b * (a div b) = a mod b" by (simp add: minus_mult_div_eq_mod)
  finally show ?thesis .
qed

text \<open>
  Claim C7: for every positive interval and every wall-clock time the sleep is
  interval \<^verbatim>\<open>-\<close> (time mod interval), where the remainder lies in \<open>[0, interval)\<close> and
  differs from the time by a whole number of intervals; so the sleep lies in
  \<open>(0, interval]\<close>. With interval 60 at second 23 it is 37 seconds.
\<close>

theorem sleep_duration_aligned:
  assumes "0 < interval"
  shows "sleep_duration interval t = Inr (interval - py_mod t interval)
         \<and> 0 \<le> py_mod t interval \<and> py_mod t interval < interval
         \<and> (\<exists>k::int. t - py_mod t interval = of_int k * interval)
         \<and> 0 < interval - py_mod t interval
         \<and> interval - py_mod t interval \<le> interval"
proof -
  have "t - py_mod t interval = of_int \<lfloor>t / interval\<rfloor> * interval"
    by (simp add: py_mod_def)
  then have "\<exists>k::int. t - py_mod t interval = of_int k * interval" ..
  then show ?thesis
    using assms py_mod_bounds [OF assms, of t] by (simp add: sleep_duration_def)
qed

theorem sleep_duration_aligned_witness:
  "(0::real) < 60 \<and> sleep_duration 60 23 = Inr 37 \<and> py_mod 23 60 = 23
   \<and> sleep_duration 60 (1793793623) = Inr 37"
proof -
  have pos: "(0::real) < 60" by simp
  have m: "py_mod 23 60 = 23 \<and> py_mod 1793793623 60 = 23" by (simp add: py_mod_def)
  show ?thesis
    using pos m sleep_duration_aligned [OF pos, of 23] sleep_duration_aligned [OF pos, of 1793793623]
    by simp
qed

lemma sleep_duration_whole_seconds:
  "0 < i \<Longrightarrow> sleep_duration (of_int i) (of_int t) = Inr (of_int (i - t mod i))"
  by (simp add: sleep_duration_def py_mod_of_int)

section \<open>Properties of \<^verbatim>\<open>load_disk\<close>\<close>

lemma label_line_ok:
  assumes "line \<noteq> [first]"
  shows "\<exists>m'. label_line first second field m line = Inr m'
           \<and> (\<forall>k. k \<noteq> field \<longrightarrow> map_of m' k = map_of m k)"
proof (cases "line \<noteq> [] \<and> hd line = first")
  case True
  with assms have "1 < length line"
    by (cases line) auto
  then show ?thesis
    using True by (simp add: label_line_def index_def bind_def update_conv')
next
  case False
  then show ?thesis
    by (auto simp: label_line_def)
qed

lemma scan_line_ok:
  assumes "line \<noteq> [''Device'']" and "line \<noteq> [''Serial'']"
      and "attribute_line line \<Longrightarrow> 9 < length line \<and> py_int (line ! 9) = Inr v"
  shows "\<exists>m'. scan_line m line = Inr m'
           \<and> (\<forall>k. k \<notin> {''readings'', ''model'', ''serial''} \<longrightarrow> map_of m' k = map_of m k)
           \<and> map_of m' ''readings''
               = (if attribute_line line then Some (JArr [JInt v]) else map_of m ''readings'')"
proof -
  let ?m1 = "if attribute_line line then AList.update ''readings'' (JArr [JInt v]) m else m"
  have first: "(if line \<noteq> [] \<and> hd line \<in> set [''190'', ''194''] then
             bind (index line 9) (\<lambda>token.
             bind (py_int token) (\<lambda>v.
             Inr (AList.update ''readings'' (JArr [JInt v]) m)))
           else Inr m) = Inr ?m1"
    using assms(3) by (auto simp: attribute_line_def index_def bind_def)
  from label_line_ok [OF assms(1), of "''Model:''" "''model''" ?m1]
  obtain m2 where m2: "label_line ''Device'' ''Model:'' ''model'' ?m1 line = Inr m2"
    and k2: "\<And>k. k \<noteq> ''model'' \<Longrightarrow> map_of m2 k = map_of ?m1 k"
    by blast
  from label_line_ok [OF assms(2), of "''Number:''" "''serial''" m2]
  obtain m3 where m3: "label_line ''Serial'' ''Number:'' ''serial'' m2 line = Inr m3"
    and k3: "\<And>k. k \<noteq> ''serial'' \<Longrightarrow> map_of m3 k = map_of m2 k"
    by blast
  have "scan_line m line = Inr m3"
    unfolding scan_line_def first by (simp add: bind_def m2 m3)
  moreover have "map_of m3 k = map_of m k" if "k \<notin> {''readings'', ''model'', ''serial''}" for k
    using that k2 [of k] k3 [of k] by (simp add: update_conv')
  moreover have "map_of m3 ''readings''
      = (if attribute_line line then Some (JArr [JInt v]) else map_of m ''readings'')"
    using k2 [of "''readings''"] k3 [of "''readings''"] by (simp add: update_conv')
  ultimately show ?thesis by blast
qed


lemma scan_lines_ok:
  assumes "\<forall>line \<in> set lines. line \<noteq> [''Device''] \<and> line \<noteq> [''Serial'']"
      and "\<forall>line \<in> set lines.
             attribute_line line \<longrightarrow> 9 < length line \<and> (\<exists>v. py_int (line ! 9) = Inr v)"
  shows "\<exists>m'. scan_lines m lines = Inr m'
           \<and> (\<forall>k. k \<notin> {''readings'', ''model'', ''serial''} \<longrightarrow> map_of m' k = map_of m k)
           \<and> (if list_ex attribute_line lines
               then \<exists>v. py_int (last (filter attribute_line lines) ! 9) = Inr v
                      \<and> map_of m' ''readings'' = Some (JArr [JInt v])
               else map_of m' ''readings'' = map_of m ''readings'')"
  using assms
proof (induction lines arbitrary: m)
  case Nil
  show ?case by simp
next
  case (Cons line rest)
  have labels: "line \<noteq> [''Device'']" "line \<noteq> [''Serial'']"
    using Cons.prems(1) by simp_all
  obtain v where v: "attribute_line line \<Longrightarrow> 9 < length line \<and> py_int (line ! 9) = Inr v"
    using Cons.prems(2) by auto
  from scan_line_ok [OF labels v, of m]
  obtain m1 where m1: "scan_line m line = Inr m1"
    and keep1: "\<And>k. k \<notin> {''readings'', ''model'', ''serial''} \<Longrightarrow> map_of m1 k = map_of m k"
    and r1: "map_of m1 ''readings''
               = (if attribute_line line then Some (JArr [JInt v]) else map_of m ''readings'')"
    by blast
  have "\<exists>m'. scan_lines m1 rest = Inr m'
           \<and> (\<forall>k. k \<notin> {''readings'', ''model'', ''serial''} \<longrightarrow> map_of m' k = map_of m1 k)
           \<and> (if list_ex attribute_line rest
               then \<exists>v. py_int (last (filter attribute_line rest) ! 9) = Inr v
                      \<and> map_of m' ''readings'' = Some (JArr [JInt v])
               else map_of m' ''readings'' = map_of m1 ''readings'')"
    using Cons.prems by (intro Cons.IH) simp_all
  then obtain m' where m': "scan_lines m1 rest = Inr m'"
    and keep: "\<And>k. k \<notin> {''readings'', ''model'', ''serial''} \<Longrightarrow> map_of m' k = map_of m1 k"
    and r: "if list_ex attribute_line rest
            then \<exists>v. py_int (last (filter attribute_line rest) ! 9) = Inr v
                   \<and> map_of m' ''readings'' = Some (JArr [JInt v])
            else map_of m' ''readings'' = map_of m1 ''readings''"
    by blast
  have run: "scan_lines m (line # rest) = Inr m'"
    by (simp add: m1 m' bind_def)
  have same: "map_of m' k = map_of m k" if "k \<notin> {''readings'', ''model'', ''serial''}" for k
    using that keep [of k] keep1 [of k] by simp
  have later: "filter attribute_line rest \<noteq> [] \<longleftrightarrow> list_ex attribute_line rest"
    by (simp add: list_ex_iff filter_empty_conv)
  have "if list_ex attribute_line (line # rest)
        then \<exists>v. py_int (last (filter attribute_line (line # rest)) ! 9) = Inr v
               \<and> map_of m' ''readings'' = Some (JArr [JInt v])
        else map_of m' ''readings'' = map_of m ''readings''"
  proof (cases "list_ex attribute_line rest")
    case True
    with r later show ?thesis by auto
  next
    case False
    with later have none: "filter attribute_line rest = []" by simp
    from False r have "map_of m' ''readings'' = map_of m1 ''readings''" by simp
    with r1 v none False show ?thesis by auto
  qed
  with run same show ?case by blast
qed

text \<open>
  Claim C8, amended: take a disk whose device is configured and whose tool output has
  no line that consists of the single token \<^verbatim>\<open>Device\<close> or \<^verbatim>\<open>Serial\<close>. If no line
  starts with \<^verbatim>\<open>190\<close> or \<^verbatim>\<open>194\<close>, the collector appends nothing and does not
  raise. If some line does, and every such line has at least ten tokens of which the
  tenth is an integer literal, the collector appends exactly one message: the formatted
  Reading named after the disk whose readings list is the single value of the last such
  line.
\<close>

theorem load_disk_messages:
  assumes "disk_command cfg disk_name = Inr command"
      and "\<forall>line \<in> set (smartctl w command). line \<noteq> [''Device''] \<and> line \<noteq> [''Serial'']"
      and "\<forall>line \<in> set (smartctl w command).
             attribute_line line \<longrightarrow> 9 < length line \<and> (\<exists>v. py_int (line ! 9) = Inr v)"
  shows "if list_ex attribute_line (smartctl w command)
         then \<exists>message v out.
                py_int (last (filter attribute_line (smartctl w command)) ! 9) = Inr v
              \<and> map_of message ''name'' = Some (JStr disk_name)
              \<and> map_of message ''readings'' = Some (JArr [JInt v])
              \<and> format_message (clock w disk_name) message = Inr out
              \<and> load_disk cfg w disk_name s = Done (s\<lparr>data := data s @ [out]\<rparr>)
         else load_disk cfg w disk_name s = Done s"
proof -
  let ?init = "[(''name'', JStr disk_name)]"
  from scan_lines_ok [OF assms(2,3), of ?init]
  obtain m where m: "scan_lines ?init (smartctl w command) = Inr m"
    and keep: "\<And>k. k \<notin> {''readings'', ''model'', ''serial''} \<Longrightarrow> map_of m k = map_of ?init k"
    and r: "if list_ex attribute_line (smartctl w command)
            then \<exists>v. py_int (last (filter attribute_line (smartctl w command)) ! 9) = Inr v
                   \<and> map_of m ''readings'' = Some (JArr [JInt v])
            else map_of m ''readings'' = map_of ?init ''readings''"
    by blast
  have alone: "load_disk cfg w disk_name s = run_alone cfg w (load_disk_resume w disk_name command s)"
    by (simp add: load_disk_def load_disk_start_def assms(1))
  show ?thesis
  proof (cases "list_ex attribute_line (smartctl w command)")
    case False
    with r have "\<not> contains m ''readings''"
      by (simp add: contains_def)
    then have "load_disk_resume w disk_name command s = (Return, s)"
      by (simp add: load_disk_resume_def m)
    with alone False show ?thesis by simp
  next
    case True
    with r obtain v where v: "py_int (last (filter attribute_line (smartctl w command)) ! 9) = Inr v"
      and readings: "map_of m ''readings'' = Some (JArr [JInt v])"
      by auto
    have name: "map_of m ''name'' = Some (JStr disk_name)"
      using keep [of "''name''"] by simp
    have "pri_value m = Inr 30"
      using keep [of "''Facility''"] keep [of "''Priority''"] by (intro pri_value_default) simp_all
    from format_message_succeeds [OF name readings _ _ this, of "[of_int v]" "clock w disk_name"]
    obtain out where out: "format_message (clock w disk_name) m = Inr out"
      by auto
    have "load_disk_resume w disk_name command s = (Return, s\<lparr>data := data s @ [out]\<rparr>)"
      using readings by (simp add: load_disk_resume_def m out contains_def)
    with alone have "load_disk cfg w disk_name s = Done (s\<lparr>data := data s @ [out]\<rparr>)"
      by simp
    with True v name readings out show ?thesis
      by auto
  qed
qed

text \<open>
  Claim C8 as stated, refuted. An output whose only line is the token \<^verbatim>\<open>Device\<close> has
  no attribute line, and \<^verbatim>\<open>line[1]\<close> raises \<^verbatim>\<open>IndexError\<close>; an output whose only
  line is an attribute line of two tokens yields no message, since \<^verbatim>\<open>line[9]\<close> raises
  \<^verbatim>\<open>IndexError\<close>.
\<close>

theorem load_disk_messages_counterexample:
  "\<not> list_ex attribute_line [[''Device'']]
   \<and> load_disk example_config (example_world\<lparr>smartctl := \<lambda>command. [[''Device'']]\<rparr>) ''sda'' idle
     = Raised IndexError idle
   \<and> list_ex attribute_line [[''190'', ''Airflow_Temperature_Cel'']]
   \<and> load_disk example_config
       (example_world\<lparr>smartctl := \<lambda>command. [[''190'', ''Airflow_Temperature_Cel'']]\<rparr>) ''sda'' idle
     = Raised IndexError idle"
  by (simp add: attribute_line_def load_disk_def load_disk_start_def load_disk_resume_def
        disk_command_def example_config_def example_world_def contains_def getitem_def bind_def
        scan_line_def label_line_def index_def)


text \<open>
  The example disk reports 35 in its line \<^verbatim>\<open>194\<close>: one message; an output of a label
  line alone: none.
\<close>

theorem load_disk_messages_witness:
  "(\<exists>message out.
       map_of message ''name'' = Some (JStr ''sda'')
     \<and> map_of message ''readings'' = Some (JArr [JInt 35])
     \<and> format_message example_env message = Inr out
     \<and> load_disk example_config example_world ''sda'' idle = Done (idle\<lparr>data := [out]\<rparr>))
   \<and> load_disk example_config
       (example_world\<lparr>smartctl := \<lambda>command. [[''Device'', ''Model:'', ''WDC'', ''WD10'']]\<rparr>)
       ''sda'' idle
     = Done idle"
proof -
  let ?quiet = "example_world\<lparr>smartctl := \<lambda>command. [[''Device'', ''Model:'', ''WDC'', ''WD10'']]\<rparr>"
  let ?command = "''sudo smartctl -Ai  /dev/sda''"
  have command: "disk_command example_config ''sda'' = Inr ?command"
    by (simp add: disk_command_def example_config_def contains_def getitem_def bind_def)
  have lines: "smartctl example_world ?command
               = [[''Device'', ''Model:'', ''WDC'', ''WD10''], example_smart_line]"
    "smartctl ?quiet ?command = [[''Device'', ''Model:'', ''WDC'', ''WD10'']]"
    by (simp_all add: example_world_def)
  have tenth: "py_int (example_smart_line ! 9) = Inr 35" "9 < length example_smart_line"
    by (simp_all add: example_smart_line_def py_int_def is_digit_def digits_value_def)
  have attr: "attribute_line example_smart_line"
    "\<not> attribute_line [''Device'', ''Model:'', ''WDC'', ''WD10'']"
    by (simp_all add: attribute_line_def example_smart_line_def)
  have labels: "example_smart_line \<noteq> [''Device'']" "example_smart_line \<noteq> [''Serial'']"
    by (simp_all add: example_smart_line_def)
  have one: "if list_ex attribute_line (smartctl example_world ?command)
         then \<exists>message v out.
                py_int (last (filter attribute_line (smartctl example_world ?command)) ! 9) = Inr v
              \<and> map_of message ''name'' = Some (JStr ''sda'')
              \<and> map_of message ''readings'' = Some (JArr [JInt v])
              \<and> format_message (clock example_world ''sda'') message = Inr out
              \<and> load_disk example_config example_world ''sda'' idle
                  = Done (idle\<lparr>data := data idle @ [out]\<rparr>)
         else load_disk example_config example_world ''sda'' idle = Done idle"
    by (rule load_disk_messages [OF command]) (auto simp: lines attr labels tenth)
  have two: "if list_ex attribute_line (smartctl ?quiet ?command)
         then \<exists>message v out.
                py_int (last (filter attribute_line (smartctl ?quiet ?command)) ! 9) = Inr v
              \<and> map_of message ''name'' = Some (JStr ''sda'')
              \<and> map_of message ''readings'' = Some (JArr [JInt v])
              \<and> format_message (clock ?quiet ''sda'') message = Inr out
              \<and> load_disk example_config ?quiet ''sda'' idle
                  = Done (idle\<lparr>data := data idle @ [out]\<rparr>)
         else load_disk example_config ?quiet ''sda'' idle = Done idle"
    by (rule load_disk_messages [OF command]) (auto simp: lines attr)
  have clock: "clock example_world ''sda'' = example_env" "data idle = []"
    by (simp_all add: example_world_def idle_def)
  from one have "\<exists>message out.
       map_of message ''name'' = Some (JStr ''sda'')
     \<and> map_of message ''readings'' = Some (JArr [JInt 35])
     \<and> format_message example_env message = Inr out
     \<and> load_disk example_config example_world ''sda'' idle = Done (idle\<lparr>data := [out]\<rparr>)"
    by (simp add: lines attr tenth clock)
  moreover from two have "load_disk example_config ?quiet ''sda'' idle = Done idle"
    by (simp add: lines attr)
  ultimately show ?thesis by blast
qed

section \<open>Properties of \<^verbatim>\<open>send_data\<close>\<close>

lemma hex_value_hex_digit: "d < 16 \<Longrightarrow> hex_value (hex_digit d) = Some d"
proof -
  assume "d < 16"
  then have "d \<in> {0, 1, 2, 3, 4, 5, 6, 7, 8, 9, 10, 11, 12, 13, 14, 15}"
    by simp arith
  then show ?thesis
    by (auto simp: hex_digit_def hex_value_def)
qed

lemma read_escape_unicode:
  "read_escape (CHR ''u'' # CHR ''0'' # CHR ''0'' # hex_digit (of_char c div 16)
                 # hex_digit (of_char c mod 16) # tail) = Some (c, tail)"
proof -
  have hi: "hex_value (hex_digit (of_char c div 16)) = Some (of_char c div 16)"
    by (rule hex_value_hex_digit) (simp add: less_mult_imp_div_less)
  have lo: "hex_value (hex_digit (of_char c mod 16)) = Some (of_char c mod 16)"
    by (rule hex_value_hex_digit) simp
  have zero: "hex_value (CHR ''0'') = Some 0"
    by (simp add: hex_value_def)
  have "(of_char c div 16) * 16 + of_char c mod 16 = (of_char c :: nat)"
    by simp
  then show ?thesis
    by (simp add: read_escape_def hi lo zero)
qed

lemma read_string_escape_char:
  "read_string (escape_char c @ tail) = prepend c (read_string tail)"
proof -
  consider (special) "c \<in> {CHR 0x22, CHR 0x5C, CHR 0x0A, CHR 0x0D, CHR 0x09, CHR 0x08, CHR 0x0C}"
    | (plain) "c \<notin> {CHR 0x22, CHR 0x5C, CHR 0x0A, CHR 0x0D, CHR 0x09, CHR 0x08, CHR 0x0C}"
        "(32::nat) \<le> of_char c \<and> of_char c \<le> (126::nat)"
    | (other) "c \<notin> {CHR 0x22, CHR 0x5C, CHR 0x0A, CHR 0x0D, CHR 0x09, CHR 0x08, CHR 0x0C}"
        "\<not> ((32::nat) \<le> of_char c \<and> of_char c \<le> (126::nat))"
    by blast
  then show ?thesis
  proof cases
    case special
    then show ?thesis
      by (auto simp: escape_char_def read_escape_def unescape_def)
  next
    case plain
    then show ?thesis
      by (simp add: escape_char_def)
  next
    case other
    then have "escape_char c = [CHR 0x5C, CHR ''u'', CHR ''0'', CHR ''0'',
            hex_digit (of_char c div 16), hex_digit (of_char c mod 16)]"
      by (simp add: escape_char_def)
    then show ?thesis
      by (simp add: read_escape_unicode)
  qed
qed

lemma read_string_json_string:
  "read_string (concat (map escape_char s) @ CHR 0x22 # rest) = Some (s, rest)"
  by (induction s) (simp_all add: read_string_escape_char prepend_def)


lemma read_items_json_string:
  "read_items (json_string x @ tail)
   = (case dropWhile is_ws tail of
        [] \<Rightarrow> None
      | d # r' \<Rightarrow>
          if d = CHR '','' then map_option ((#) x) (read_items (dropWhile is_ws r'))
          else if d = CHR '']'' \<and> dropWhile is_ws r' = [] then Some [x]
          else None)"
  by (simp add: json_string_def read_string_json_string)

lemma join_json_string_quote:
  "\<exists>t. join sep (map json_string (y # ys)) = CHR 0x22 # t"
  by (cases ys) (simp_all add: json_string_def)

lemma read_items_join:
  assumes "xs \<noteq> []"
  shows "read_items (join ('','' @ [newline] @ ''  '') (map json_string xs) @ newline # '']'')
         = Some xs"
  using assms
proof (induction xs)
  case Nil
  then show ?case by simp
next
  case (Cons x xs)
  show ?case
  proof (cases xs)
    case Nil
    then show ?thesis
      by (simp add: read_items_json_string is_ws_def newline_def)
  next
    case (Cons y ys)
    from join_json_string_quote [of "'','' @ [newline] @ ''  ''" y ys]
    obtain t where t: "join ('','' @ [newline] @ ''  '') (map json_string (y # ys)) = CHR 0x22 # t"
      by blast
    have "read_items (join ('','' @ [newline] @ ''  '') (map json_string (y # ys)) @ newline # '']'')
          = Some (y # ys)"
      using Cons.IH Cons by simp
    then show ?thesis
      using t by (simp add: Cons read_items_json_string is_ws_def newline_def)
  qed
qed

lemma json_loads_dumps: "json_loads_strings (json_dumps_indent2 xs) = Some xs"
proof (cases xs)
  case Nil
  then show ?thesis
    by (simp add: json_loads_strings_def json_dumps_indent2_def is_ws_def)
next
  case (Cons y ys)
  from join_json_string_quote [of "'','' @ [newline] @ ''  ''" y ys]
  obtain t where t: "join ('','' @ [newline] @ ''  '') (map json_string (y # ys)) = CHR 0x22 # t"
    by blast
  have "read_items (CHR 0x22 # t @ newline # '']'') = Some (y # ys)"
    using read_items_join [of "y # ys"] t by simp
  then show ?thesis
    using t by (simp add: Cons json_loads_strings_def json_dumps_indent2_def is_ws_def newline_def)
qed

text \<open>
  Claim C9: in dry-run mode, for every non-empty batch, the Sink prints one text and
  leaves the batch empty. The text is the batch as a JSON array, each message on a line
  of its own indented by two spaces; read as JSON it is exactly the list of the
  batch's messages in their order.
\<close>

theorem send_data_dry_run:
  assumes "data s \<noteq> []"
  shows "send_data cfg True w s
           = Done (s\<lparr>data := [], stdout := stdout s @ [json_dumps_indent2 (data s)]\<rparr>)
         \<and> json_dumps_indent2 (data s)
           = ''['' @ [newline] @ ''  ''
             @ join ('','' @ [newline] @ ''  '') (map json_string (data s))
             @ [newline] @ '']''
         \<and> json_loads_strings (json_dumps_indent2 (data s)) = Some (data s)"
proof -
  have printed: "send_data cfg True w s
        = Done (s\<lparr>data := [], stdout := stdout s @ [json_dumps_indent2 (data s)]\<rparr>)"
    using assms by (simp add: send_data_def send_data_start_def)
  have layout: "json_dumps_indent2 (data s)
           = ''['' @ [newline] @ ''  ''
             @ join ('','' @ [newline] @ ''  '') (map json_string (data s))
             @ [newline] @ '']''"
    using assms by (simp add: json_dumps_indent2_def)
  show ?thesis
    by (intro conjI printed layout json_loads_dumps)
qed

theorem send_data_dry_run_witness:
  "data (idle\<lparr>data := [''<30>first'', ''<30>second'']\<rparr>) \<noteq> []
   \<and> send_data example_config True example_world (idle\<lparr>data := [''<30>first'', ''<30>second'']\<rparr>)
     = Done (idle\<lparr>stdout := [json_dumps_indent2 [''<30>first'', ''<30>second'']]\<rparr>)
   \<and> json_dumps_indent2 [''<30>first'', ''<30>second'']
     = ''['' @ [newline] @ ''  '' @ [CHR 0x22] @ ''<30>first'' @ [CHR 0x22] @ '',''
       @ [newline] @ ''  '' @ [CHR 0x22] @ ''<30>second'' @ [CHR 0x22] @ [newline] @ '']''
   \<and> json_loads_strings (json_dumps_indent2 [''<30>first'', ''<30>second''])
     = Some [''<30>first'', ''<30>second'']"
proof -
  let ?s = "idle\<lparr>data := [''<30>first'', ''<30>second'']\<rparr>"
  have d: "data ?s \<noteq> []"
    by simp
  note t = send_data_dry_run [OF d, of example_config example_world]
  have printed: "send_data example_config True example_world ?s
          = Done (idle\<lparr>stdout := [json_dumps_indent2 [''<30>first'', ''<30>second'']]\<rparr>)"
    using t [THEN conjunct1] by (simp add: idle_def)
  have layout: "json_dumps_indent2 [''<30>first'', ''<30>second'']
     = ''['' @ [newline] @ ''  '' @ [CHR 0x22] @ ''<30>first'' @ [CHR 0x22] @ '',''
       @ [newline] @ ''  '' @ [CHR 0x22] @ ''<30>second'' @ [CHR 0x22] @ [newline] @ '']''"
    using t [THEN conjunct2, THEN conjunct1] by (simp add: json_string_def escape_char_def)
  have decoded: "json_loads_strings (json_dumps_indent2 [''<30>first'', ''<30>second''])
     = Some [''<30>first'', ''<30>second'']"
    using t [THEN conjunct2, THEN conjunct2] by simp
  show ?thesis
    by (intro conjI d printed layout decoded)
qed

text \<open>
  Claim C10: when the batch is empty the Sink returns at once in both modes, with the
  state as it was: nothing printed, no connection opened, nothing sent.
\<close>

theorem send_data_empty_batch:
  assumes "data s = []"
  shows "send_data cfg dry_run w s = Done s"
  using assms by (simp add: send_data_def send_data_start_def)

theorem send_data_empty_batch_witness:
  "data idle = []
   \<and> send_data example_config True example_world idle = Done idle
   \<and> send_data example_config False example_world idle = Done idle"
proof -
  have d: "data idle = []"
    by (simp add: idle_def)
  show ?thesis
    using d send_data_empty_batch [OF d, of example_config True example_world]
      send_data_empty_batch [OF d, of example_config False example_world]
    by simp
qed

text \<open>
  For comparison, the live mode on a batch of two: one connection, the messages in order,
  each followed by a newline, then the close.
\<close>

lemma send_data_live:
  "send_data cfg False (w\<lparr>connect := None\<rparr>) (s\<lparr>data := [a, b]\<rparr>)
   = Done (s\<lparr>data := [], wire := wire s @ [Connect (logger_addr cfg) (logger_port cfg),
               Sent (a @ [newline]), Sent (b @ [newline]), Close]\<rparr>)"
  by (simp add: send_data_def send_data_start_def send_connected_def send_loop_def)

section \<open>Properties of a cycle of \<^verbatim>\<open>main\<close>\<close>

lemma each_sensor_appends:
  "\<exists>r ms. \<forall>s. each_sensor cfg w sensor_data names s = (r, s\<lparr>data := data s @ ms\<rparr>)"
proof (induction names)
  case Nil
  have "\<forall>s. each_sensor cfg w sensor_data [] s = (None, s\<lparr>data := data s @ []\<rparr>)"
    by simp
  then show ?case by blast
next
  case (Cons name names)
  let ?line = "bind (getitem (sensor_devices cfg) name) (\<lambda>sensor_device.
           bind (select_readings (matcher w) sensor_data sensor_device) (\<lambda>readings.
           format_message (clock w name)
             [(''name'', JStr name), (''readings'', JArr readings)]))"
  show ?case
  proof (cases ?line)
    case (Inl e)
    then have "\<forall>s. each_sensor cfg w sensor_data (name # names) s = (Some e, s\<lparr>data := data s @ []\<rparr>)"
      by simp
    then show ?thesis by blast
  next
    case (Inr line)
    from Cons.IH obtain r ms
      where rest: "\<And>s. each_sensor cfg w sensor_data names s = (r, s\<lparr>data := data s @ ms\<rparr>)"
      by blast
    have "\<forall>s. each_sensor cfg w sensor_data (name # names) s
              = (r, s\<lparr>data := data s @ (line # ms)\<rparr>)"
      by (simp add: Inr rest)
    then show ?thesis by blast
  qed
qed

lemma resume_collector_shape:
  assumes "collector c"
  shows "\<exists>st ms. (st = Return \<or> (\<exists>e. st = Raise e))
           \<and> (\<forall>s. resume cfg w c s = (st, s\<lparr>data := data s @ ms\<rparr>))"
proof (cases c)
  case (AwaitTool disk_name command)
  let ?scan = "scan_lines [(''name'', JStr disk_name)] (smartctl w command)"
  show ?thesis
  proof (cases ?scan)
    case (Inl e)
    then have "\<forall>s. resume cfg w c s = (Raise e, s\<lparr>data := data s @ []\<rparr>)"
      by (simp add: AwaitTool load_disk_resume_def)
    then show ?thesis by blast
  next
    case (Inr message)
    show ?thesis
    proof (cases "contains message ''readings''")
      case False
      with Inr have "\<forall>s. resume cfg w c s = (Return, s\<lparr>data := data s @ []\<rparr>)"
        by (simp add: AwaitTool load_disk_resume_def)
      then show ?thesis by blast
    next
      case True
      show ?thesis
      proof (cases "format_message (clock w disk_name) message")
        case (Inl e)
        with Inr True have "\<forall>s. resume cfg w c s = (Raise e, s\<lparr>data := data s @ []\<rparr>)"
          by (simp add: AwaitTool load_disk_resume_def)
        then show ?thesis by blast
      next
        case (Inr line)
        with \<open>?scan = Inr message\<close> True
        have "\<forall>s. resume cfg w c s = (Return, s\<lparr>data := data s @ [line]\<rparr>)"
          by (simp add: AwaitTool load_disk_resume_def)
        then show ?thesis by blast
      qed
    qed
  qed
next
  case AwaitSensors
  show ?thesis
  proof (cases "sensors w")
    case (Inl e)
    then have "\<forall>s. resume cfg w c s = (Raise e, s\<lparr>data := data s @ []\<rparr>)"
      by (simp add: AwaitSensors load_sensors_resume_def)
    then show ?thesis by blast
  next
    case (Inr sensor_data)
    from each_sensor_appends [of cfg w sensor_data "sensor_names cfg"]
    obtain r ms where
      each: "\<And>s. each_sensor cfg w sensor_data (sensor_names cfg) s = (r, s\<lparr>data := data s @ ms\<rparr>)"
      by blast
    show ?thesis
    proof (cases r)
      case None
      then have "\<forall>s. resume cfg w c s = (Return, s\<lparr>data := data s @ ms\<rparr>)"
        by (simp add: AwaitSensors load_sensors_resume_def Inr each)
      then show ?thesis by blast
    next
      case (Some e)
      then have "\<forall>s. resume cfg w c s = (Raise e, s\<lparr>data := data s @ ms\<rparr>)"
        by (simp add: AwaitSensors load_sensors_resume_def Inr each)
      then show ?thesis by blast
    qed
  qed
qed (use assms in simp_all)

lemma resume_collector:
  assumes "collector c"
  obtains st where "st = Return \<or> (\<exists>e. st = Raise e)"
    and "\<And>s. resume cfg w c s = (st, s\<lparr>data := data s @ produced cfg w c\<rparr>)"
proof -
  from resume_collector_shape [OF assms, of cfg w]
  obtain st ms where st: "st = Return \<or> (\<exists>e. st = Raise e)"
    and r: "\<And>s. resume cfg w c s = (st, s\<lparr>data := data s @ ms\<rparr>)"
    by blast
  have "produced cfg w c = ms"
    by (simp add: produced_def r idle_def)
  with st r that show ?thesis by simp
qed


lemma load_disk_start_task: "load_disk_start cfg disk_name s = (disk_task cfg disk_name, s)"
  by (simp add: load_disk_start_def disk_task_def split: sum.splits)

lemma start_all_disks:
  "start_all cfg dry_run (map LoadDisk names @ cs) s
   = (map (disk_task cfg) names @ fst (start_all cfg dry_run cs s),
      snd (start_all cfg dry_run cs s))"
  by (induction names) (simp_all add: load_disk_start_task split: prod.splits)

lemma start_all_calls:
  "start_all cfg dry_run (calls cfg) s
   = (map (disk_task cfg) (disk_names cfg) @ [Suspend AwaitSensors, fst (send_data_start dry_run s)],
      snd (send_data_start dry_run s))"
  by (simp add: calls_def start_all_disks load_sensors_start_def split: prod.splits)

lemma first_raise_append:
  "first_raise (xs @ ys) = (case first_raise xs of Some e \<Rightarrow> Some e | None \<Rightarrow> first_raise ys)"
  by (induction xs rule: first_raise.induct) simp_all

lemma first_raise_disks:
  "first_raise (map (disk_task cfg) names) = None
   \<Longrightarrow> i < length names
   \<Longrightarrow> \<exists>command. disk_command cfg (names ! i) = Inr command
         \<and> disk_task cfg (names ! i) = Suspend (AwaitTool (names ! i) command)"
proof (induction names arbitrary: i)
  case Nil
  then show ?case by simp
next
  case (Cons name names)
  have all: "first_raise (disk_task cfg name # map (disk_task cfg) names) = None"
    using Cons.prems(1) by simp
  obtain command where here: "disk_command cfg name = Inr command"
    and task: "disk_task cfg name = Suspend (AwaitTool name command)"
  proof (cases "disk_command cfg name")
    case (Inl e)
    then have "disk_task cfg name = Raise e" by (simp add: disk_task_def)
    with all show ?thesis by simp
  next
    case (Inr command)
    then have "disk_task cfg name = Suspend (AwaitTool name command)" by (simp add: disk_task_def)
    with Inr that show ?thesis by simp
  qed
  from all task have rest: "first_raise (map (disk_task cfg) names) = None"
    by simp
  show ?case
  proof (cases i)
    case 0
    with here task show ?thesis by simp
  next
    case (Suc j)
    with Cons.IH [OF rest, of j] Cons.prems(2) show ?thesis by simp
  qed
qed


lemma run_events_completes:
  assumes "distinct sched"
      and "\<forall>i \<in> set sched. i < length tasks \<and> tasks ! i = Suspend (cs ! i) \<and> collector (cs ! i)"
      and "\<forall>i < length tasks. tasks ! i = Return \<or> i \<in> set sched"
  shows "\<exists>s'. run_events cfg w sched tasks s = Done s'
             \<or> (\<exists>e. run_events cfg w sched tasks s = Raised e s')"
  using assms
proof (induction sched arbitrary: tasks s)
  case Nil
  then have "list_all (\<lambda>st. st = Return) tasks"
    by (simp add: list_all_length)
  then show ?case by simp
next
  case (Cons i rest)
  from Cons.prems(2) have i: "i < length tasks" "tasks ! i = Suspend (cs ! i)" "collector (cs ! i)"
    by simp_all
  then have busy: "\<not> list_all (\<lambda>st. st = Return) tasks"
    by (auto simp: list_all_length)
  from resume_collector [OF i(3), of cfg w]
  obtain st where st: "st = Return \<or> (\<exists>e. st = Raise e)"
    and r: "\<And>s. resume cfg w (cs ! i) s = (st, s\<lparr>data := data s @ produced cfg w (cs ! i)\<rparr>)"
    by blast
  let ?s2 = "s\<lparr>data := data s @ produced cfg w (cs ! i)\<rparr>"
  show ?case
  proof (cases "st = Return")
    case False
    with st obtain e where "st = Raise e" by blast
    then show ?thesis by (simp add: busy i r)
  next
    case True
    have a: "\<forall>j \<in> set rest. j < length (tasks[i := Return])
          \<and> tasks[i := Return] ! j = Suspend (cs ! j) \<and> collector (cs ! j)"
      using Cons.prems(1,2) by (auto simp: nth_list_update)
    have b: "\<forall>j < length (tasks[i := Return]). tasks[i := Return] ! j = Return \<or> j \<in> set rest"
    proof (intro allI impI)
      fix j
      assume j: "j < length (tasks[i := Return])"
      show "tasks[i := Return] ! j = Return \<or> j \<in> set rest"
      proof (cases "j = i")
        case True
        with j show ?thesis by simp
      next
        case False
        with j Cons.prems(3) show ?thesis by (auto simp: nth_list_update)
      qed
    qed
    from Cons.prems(1) have "distinct rest" by simp
    from Cons.IH [OF this a b, of ?s2] show ?thesis
      by (simp add: busy i r True)
  qed
qed


lemma tasks_of_cycle:
  assumes "first_raise (map (disk_task cfg) (disk_names cfg)) = None"
      and "i \<le> length (disk_names cfg)"
  shows "\<exists>c. (map (disk_task cfg) (disk_names cfg) @ [Suspend AwaitSensors, Return]) ! i = Suspend c
           \<and> collector c \<and> produced cfg w c = collected cfg w i"
proof (cases "i < length (disk_names cfg)")
  case True
  from first_raise_disks [OF assms(1) True]
  obtain command where "disk_command cfg (disk_names cfg ! i) = Inr command"
    and "disk_task cfg (disk_names cfg ! i) = Suspend (AwaitTool (disk_names cfg ! i) command)"
    by blast
  with True show ?thesis
    by (simp add: nth_append collected_def)
next
  case False
  with assms(2) have "i = length (disk_names cfg)" by simp
  then show ?thesis
    by (simp add: nth_append collected_def)
qed

lemma cycle_tasks:
  assumes "dry_run \<or> data s = []"
  shows "cycle cfg dry_run w s
         = (case first_raise (map (disk_task cfg) (disk_names cfg)) of
              Some e \<Rightarrow> Raised e (snd (send_data_start dry_run s))
            | None \<Rightarrow>
                run_events cfg w (schedule w)
                  (map (disk_task cfg) (disk_names cfg) @ [Suspend AwaitSensors, Return])
                  (snd (send_data_start dry_run s)))"
proof -
  have "fst (send_data_start dry_run s) = Return"
    using assms by (auto simp: send_data_start_def)
  then show ?thesis
    by (simp add: cycle_def gather_def start_all_calls first_raise_append split: option.splits)
qed


text \<open>
  Such a cycle does end, returning or raising, once every collector has been woken.
\<close>

lemma cycle_completes:
  assumes "dry_run \<or> data s = []"
      and "distinct (schedule w)"
      and "set (schedule w) = {..length (disk_names cfg)}"
  shows "\<exists>s'. cycle cfg dry_run w s = Done s' \<or> (\<exists>e. cycle cfg dry_run w s = Raised e s')"
proof (cases "first_raise (map (disk_task cfg) (disk_names cfg))")
  case (Some e)
  then show ?thesis
    by (simp add: cycle_tasks [OF assms(1)])
next
  case None
  let ?tasks = "map (disk_task cfg) (disk_names cfg) @ [Suspend AwaitSensors, Return]"
  define cs where "cs = map (\<lambda>st. case st of Suspend c \<Rightarrow> c | _ \<Rightarrow> AwaitClosed) ?tasks"
  have each: "i < length ?tasks \<and> ?tasks ! i = Suspend (cs ! i) \<and> collector (cs ! i)"
    if "i \<in> set (schedule w)" for i
  proof -
    from that assms(3) have i: "i \<le> length (disk_names cfg)" by simp
    then have len: "i < length ?tasks" by simp
    from tasks_of_cycle [OF None i, of w]
    obtain c where c: "?tasks ! i = Suspend c" "collector c"
      by blast
    from len c(1) have "cs ! i = c"
      unfolding cs_def by (simp only: nth_map) simp
    with len c show ?thesis by simp
  qed
  have covered: "\<forall>i < length ?tasks. ?tasks ! i = Return \<or> i \<in> set (schedule w)"
  proof (intro allI impI)
    fix i assume "i < length ?tasks"
    then have "i \<le> length (disk_names cfg) \<or> i = Suc (length (disk_names cfg))"
      by auto
    then show "?tasks ! i = Return \<or> i \<in> set (schedule w)"
      using assms(3) by (auto simp: nth_append)
  qed
  from run_events_completes [OF assms(2) _ covered, of cs cfg w "snd (send_data_start dry_run s)"] each
  show ?thesis
    by (simp add: cycle_tasks [OF assms(1)] None)
qed


lemma example_sensor_resume:
  "load_sensors_resume example_config example_world s
   = (Return, s\<lparr>data := data s @ [example_sensor_line]\<rparr>)"
proof -
  have sel: "select_readings re_match example_tree [''coretemp'', ''Core 0'', ''temp2_input$'']
             = Inr [JReal 42]"
    by (simp add: example_tree_def getitem_def re_atom_def)
  have p: "payload example_env [(''name'', JStr ''cpu''), (''readings'', JArr [JReal 42])]
           = Inr [(''name'', JStr ''cpu''), (''hostname'', JStr ''box''),
                  (''timereported'', JStr ''2026-11-04T13:00:23.000042+01:00''),
                  (''cpu'', JReal 42)]"
    by (simp add: payload_def bind_def contains_def getitem_def mean_of_def reduce_add_def
          dict_update_def delitem_def example_env_def)
  have v: "pri_value [(''name'', JStr ''cpu''), (''readings'', JArr [JReal 42])] = Inr 30"
    by (simp add: pri_value_def bind_def contains_def)
  have f: "format_message example_env [(''name'', JStr ''cpu''), (''readings'', JArr [JReal 42])]
           = Inr example_sensor_line"
    by (simp only: format_message_def p v bind_def sum.case example_sensor_line_def
          example_line_def)
  have dev: "getitem (sensor_devices example_config) ''cpu''
             = Inr [''coretemp'', ''Core 0'', ''temp2_input$'']"
    by (simp add: example_config_def getitem_def)
  have w: "sensors example_world = Inr example_tree" "matcher example_world = re_match"
    "clock example_world ''cpu'' = example_env" "sensor_names example_config = [''cpu'']"
    by (simp_all add: example_world_def example_config_def)
  show ?thesis
    by (simp add: load_sensors_resume_def w dev sel f bind_def)
qed

lemma example_disk_resume:
  "load_disk_resume example_world ''sda'' ''sudo smartctl -Ai  /dev/sda'' s
   = (Return, s\<lparr>data := data s @ [example_disk_line]\<rparr>)"
proof -
  have tenth: "py_int ''35'' = Inr 35"
    by (simp add: py_int_def is_digit_def digits_value_def)
  have scan: "scan_lines [(''name'', JStr ''sda'')]
                (smartctl example_world ''sudo smartctl -Ai  /dev/sda'')
              = Inr [(''name'', JStr ''sda''), (''model'', JStr ''WDC WD10''),
                     (''readings'', JArr [JInt 35])]"
    by (simp add: scan_line_def label_line_def index_def bind_def example_smart_line_def tenth
          example_world_def)
  have p: "payload example_env [(''name'', JStr ''sda''), (''model'', JStr ''WDC WD10''),
                     (''readings'', JArr [JInt 35])]
           = Inr [(''name'', JStr ''sda''), (''model'', JStr ''WDC WD10''),
                   (''hostname'', JStr ''box''),
                   (''timereported'', JStr ''2026-11-04T13:00:23.000042+01:00''),
                   (''sda'', JReal 35)]"
    by (simp add: payload_def bind_def contains_def getitem_def mean_of_def reduce_add_def
          dict_update_def delitem_def example_env_def)
  have v: "pri_value [(''name'', JStr ''sda''), (''model'', JStr ''WDC WD10''),
                     (''readings'', JArr [JInt 35])] = Inr 30"
    by (simp add: pri_value_def bind_def contains_def)
  have f: "format_message example_env [(''name'', JStr ''sda''), (''model'', JStr ''WDC WD10''),
                     (''readings'', JArr [JInt 35])] = Inr example_disk_line"
    by (simp only: format_message_def p v bind_def sum.case example_disk_line_def
          example_line_def)
  have w: "clock example_world ''sda'' = example_env"
    by (simp add: example_world_def)
  show ?thesis
    by (simp add: load_disk_resume_def w scan f contains_def)
qed






text \<open>
  The schedule is read by the event loop only, not by the tasks.
\<close>

lemma each_sensor_schedule:
  "each_sensor cfg (w\<lparr>schedule := sched\<rparr>) sensor_data names s
   = each_sensor cfg w sensor_data names s"
  by (induction names arbitrary: s) (simp_all split: sum.splits)

lemma resume_schedule:
  "resume cfg (w\<lparr>schedule := sched\<rparr>) c s = resume cfg (w :: world) c s"
  by (cases c)
     (simp_all add: load_disk_resume_def load_sensors_resume_def each_sensor_schedule
        send_connected_def split: sum.splits)

text \<open>
  In live mode the Sink and the collectors interleave. Here the connection is ready
  first, the sensor collector finishes during the first \<^verbatim>\<open>drain\<close> and the disk
  collector during the second: the Sink sends the message left by the previous cycle
  and then both messages of the current cycle, as they arrive.
\<close>

lemma live_sink_interleaves:
  "cycle example_config False (example_world\<lparr>schedule := [2, 1, 2, 0, 2, 2, 2]\<rparr>)
     (idle\<lparr>data := [''earlier'']\<rparr>)
   = Done (idle\<lparr>wire := [Connect ''loghost'' 514, Sent (''earlier'' @ [newline]),
                       Sent (example_sensor_line @ [newline]),
                       Sent (example_disk_line @ [newline]), Close]\<rparr>)"
proof -
  have task: "disk_task example_config ''sda''
              = Suspend (AwaitTool ''sda'' ''sudo smartctl -Ai  /dev/sda'')"
    by (simp add: disk_task_def disk_command_def example_config_def contains_def getitem_def
          bind_def)
  have c: "disk_names example_config = [''sda'']" "logger_addr example_config = ''loghost''"
    "logger_port example_config = 514"
    by (simp_all add: example_config_def)
  have w: "connect example_world = None"
    by (simp add: example_world_def)
  have same: "load_sensors_resume example_config (example_world\<lparr>schedule := sched\<rparr>) s
              = load_sensors_resume example_config example_world s"
    "load_disk_resume (example_world\<lparr>schedule := sched\<rparr>) name command s
              = load_disk_resume example_world name command s" for sched s name command
    using resume_schedule [where cfg = example_config and w = example_world and sched = sched
        and c = AwaitSensors and s = s]
      resume_schedule [where cfg = example_config and w = example_world and sched = sched
        and c = "AwaitTool name command" and s = s]
    by simp_all
  show ?thesis
    by (simp add: cycle_def gather_def start_all_calls c task send_data_start_def idle_def
          send_connected_def send_loop_def w same example_sensor_resume example_disk_resume)
qed

end
